theory Spec2Isabelle
  imports Complex_Main
begin

section \<open>Layers of the tensor library, as the network configures them\<close>

text \<open>
  The network of \<^verbatim>\<open>Model/ELUNet.py\<close> is assembled from layers of the tensor library.
  A layer is the record of its configuration: the channel widths, the kernel, the
  stride and the padding it was constructed with.
\<close>

datatype layer =
    Conv3d nat nat nat nat nat bool
      \<comment> \<open>in_channels, out_channels, kernel_size, stride, padding, bias\<close>
  | ConvTranspose3d nat nat nat nat
      \<comment> \<open>in_channels, out_channels, kernel_size, stride\<close>
  | Upsample nat
      \<comment> \<open>mode trilinear, with the scale_factor\<close>
  | MaxPool3d nat nat nat
      \<comment> \<open>kernel_size, stride, padding\<close>
  | ReLU
  | Sequential "layer list"

text \<open>\<^verbatim>\<open>conv3x3(in_channels, out_channels, stride=1, padding=1, bias=True)\<close>\<close>

definition conv3x3 :: "nat \<Rightarrow> nat \<Rightarrow> layer" where
  "conv3x3 in_channels out_channels = Conv3d in_channels out_channels 3 1 1 True"

text \<open>\<^verbatim>\<open>conv1x1(in_channels, out_channels)\<close>: the library's defaults are stride 1, no padding, bias.\<close>

definition conv1x1 :: "nat \<Rightarrow> nat \<Rightarrow> layer" where
  "conv1x1 in_channels out_channels = Conv3d in_channels out_channels 1 1 0 True"

text \<open>\<^verbatim>\<open>upconv2x2(in_channels, out_channels, mode='transpose')\<close>\<close>

definition upconv2x2 :: "nat \<Rightarrow> nat \<Rightarrow> string \<Rightarrow> layer" where
  "upconv2x2 in_channels out_channels mode =
     (if mode = ''transpose''
      then ConvTranspose3d in_channels out_channels 2 2
      else Sequential [Upsample 2, conv1x1 in_channels out_channels])"

section \<open>Errors\<close>

text \<open>
  Nothing in the repository catches an exception, so every failure ends the call. The
  Python exception classes are \<open>UnboundLocalError\<close>, \<open>IndexError\<close>, \<open>ValueError\<close>,
  \<open>AttributeError\<close> and \<open>FileNotFoundError\<close>; the remaining constructors are the
  \<open>RuntimeError\<close>s of the tensor library, told apart by their cause.
\<close>

datatype error =
    UnboundLocalError
  | IndexError
  | ValueError
  | AttributeError
  | FileNotFoundError string
  | ImageReadError string
      \<comment> \<open>the image library could not read the file of this name\<close>
  | ChannelMismatch nat nat
      \<comment> \<open>a convolution declared for the first width received the second\<close>
  | NotFiveDimensional
  | OutputSizeTooSmall
  | CatSizeMismatch

section \<open>Construction of the blocks and of the network\<close>

text \<open>\<^verbatim>\<open>DsBlock.__init__\<close>: the pooling layer exists only when \<open>pooling\<close> is set.\<close>

record DsBlock =
  ds_conv :: layer
  ds_relu :: layer
  pooling :: bool
  mp :: "layer option"

definition DsBlock_init :: "nat \<Rightarrow> nat \<Rightarrow> bool \<Rightarrow> DsBlock" where
  "DsBlock_init in_channels out_channels pool =
     \<lparr>ds_conv = conv3x3 in_channels out_channels,
      ds_relu = ReLU,
      pooling = pool,
      mp = (if pool then Some (MaxPool3d 2 2 0) else None)\<rparr>"

text \<open>
  \<^verbatim>\<open>UsBlock\<close> and \<^verbatim>\<open>UsBlockRes\<close> hold the same three attributes and differ in the width
  they declare for \<open>conv\<close> and in their forward pass.
\<close>

record up_attrs =
  upconv :: layer
  us_conv :: layer
  us_relu :: layer

text \<open>An element of \<open>up_convs\<close> is an object of one of the two classes.\<close>

datatype up_module = UsBlock up_attrs | UsBlockRes up_attrs

definition UsBlock_init :: "nat \<Rightarrow> nat \<Rightarrow> string \<Rightarrow> up_attrs" where
  "UsBlock_init in_channels out_channels up_mode =
     \<lparr>upconv = upconv2x2 in_channels out_channels up_mode,
      us_conv = conv3x3 (in_channels + out_channels) out_channels,
      us_relu = ReLU\<rparr>"

definition UsBlockRes_init :: "nat \<Rightarrow> nat \<Rightarrow> string \<Rightarrow> up_attrs" where
  "UsBlockRes_init in_channels out_channels up_mode =
     \<lparr>upconv = upconv2x2 in_channels out_channels up_mode,
      us_conv = conv3x3 (out_channels + out_channels) out_channels,
      us_relu = ReLU\<rparr>"

text \<open>
  \<^verbatim>\<open>ELUNet.__init__\<close>. The attribute \<open>skip_connections\<close> it also sets is an empty list
  that nothing reads, and is left out of the record.
\<close>

record ELUNet =
  conv_start :: layer
  down_convs :: "DsBlock list"
  up_convs :: "up_module list"
  conv_final :: layer
  conv :: layer

text \<open>
  The first loop, \<^verbatim>\<open>for i in range(depth)\<close>. The variable \<open>outs\<close> is bound by the body
  only, so after the loop it is bound exactly when the body ran.
\<close>

definition encoder_pathway :: "int \<Rightarrow> nat \<Rightarrow> DsBlock list \<times> nat option" where
  "encoder_pathway depth start_filts =
     foldl (\<lambda>(dcs, outs) i.
              let ins = start_filts * 2 ^ i;
                  outs = ins * 2;
                  pool = (int i < depth - 1)
              in (dcs @ [DsBlock_init ins outs pool], Some outs))
           ([], None) [0 ..< nat depth]"

text \<open>The second loop, \<^verbatim>\<open>for i in range(depth - 1)\<close>, started with the \<open>outs\<close> of the first.\<close>

definition decoder_pathway ::
  "int \<Rightarrow> nat \<Rightarrow> string \<Rightarrow> bool \<Rightarrow> up_module list \<times> nat" where
  "decoder_pathway depth outs0 up_mode res =
     foldl (\<lambda>(ucs, outs) i.
              let ins = outs;
                  outs = ins div 2
              in (ucs @ [if res then UsBlockRes (UsBlockRes_init (ins + outs) outs up_mode)
                         else UsBlock (UsBlock_init ins outs up_mode)], outs))
           ([], outs0) [0 ..< nat (depth - 1)]"

text \<open>
  With \<open>depth \<le> 0\<close> neither loop body runs and the read of \<open>outs\<close> for \<open>conv_final\<close>
  raises. With \<open>depth \<ge> 1\<close> the first loop has bound \<open>outs\<close> before the second reads it.
\<close>

definition ELUNet_init ::
  "nat \<Rightarrow> nat \<Rightarrow> int \<Rightarrow> nat \<Rightarrow> string \<Rightarrow> bool \<Rightarrow> error + ELUNet" where
  "ELUNet_init num_classes in_channels depth start_filts up_mode res =
     (case encoder_pathway depth start_filts of
        (dcs, None) \<Rightarrow> Inl UnboundLocalError
      | (dcs, Some outs0) \<Rightarrow>
          (case decoder_pathway depth outs0 up_mode res of
             (ucs, outs) \<Rightarrow>
               Inr \<lparr>conv_start = conv3x3 in_channels start_filts,
                    down_convs = dcs,
                    up_convs = ucs,
                    conv_final = conv1x1 outs num_classes,
                    conv = conv3x3 (outs * 2) outs\<rparr>))"

text \<open>The channel widths a stage was declared with.\<close>

fun in_width :: "layer \<Rightarrow> nat" where
  "in_width (Conv3d i out k s p b) = i"
| "in_width (ConvTranspose3d i out k s) = i"
| "in_width l = 0"

fun out_width :: "layer \<Rightarrow> nat" where
  "out_width (Conv3d i out k s p b) = out"
| "out_width (ConvTranspose3d i out k s) = out"
| "out_width l = 0"

definition up_out_width :: "up_module \<Rightarrow> nat" where
  "up_out_width m = (case m of UsBlock a \<Rightarrow> out_width (us_conv a)
                             | UsBlockRes a \<Rightarrow> out_width (us_conv a))"

section \<open>Tensors and the trace of a forward pass\<close>

text \<open>
  A forward pass is followed symbolically. A tensor is its shape together with the
  operation that produced it (what the library keeps as \<open>grad_fn\<close>); the values it holds
  are the library's business and are not modelled. A module is named by its attribute
  path from the network, as \<open>named_modules\<close> does: \<open>down_convs.2.mp\<close> is
  \<open>[Attr ''down_convs'', Idx 2, Attr ''mp'']\<close>.
\<close>

datatype pelem = Attr string | Idx nat

type_synonym path = "pelem list"

datatype origin =
    Input
  | LayerOut path origin
  | InterpolateOut origin
  | CatOut "origin list"

record tensor =
  tshape :: "nat list"
  grad_fn :: origin

text \<open>
  Every call of a module, of \<open>F.interpolate\<close> and of \<open>torch.cat\<close> is written to a trace
  with the tensors it received, so that what a pass did is known also when it raises.
\<close>

datatype event =
    Call path "tensor list"
  | Interpolate tensor "nat list"
  | Cat "tensor list"

type_synonym 'a run = "event list \<times> (error + 'a)"

definition ret :: "'a \<Rightarrow> 'a run" where
  "ret a = ([], Inr a)"

definition raise :: "error \<Rightarrow> 'a run" where
  "raise e = ([], Inl e)"

definition logged :: "event \<Rightarrow> unit run" where
  "logged ev = ([ev], Inr ())"

definition lift :: "error + 'a \<Rightarrow> 'a run" where
  "lift r = ([], r)"

definition and_then :: "'a run \<Rightarrow> ('a \<Rightarrow> 'b run) \<Rightarrow> 'b run" where
  "and_then m f =
     (case m of
        (tr, Inl e) \<Rightarrow> (tr, Inl e)
      | (tr, Inr a) \<Rightarrow> (case f a of (tr', r) \<Rightarrow> (tr @ tr', r)))"

definition trace :: "'a run \<Rightarrow> event list" where
  "trace m = fst m"

definition outcome :: "'a run \<Rightarrow> error + 'a" where
  "outcome m = snd m"

subsection \<open>The shape rules of the library's layers\<close>

text \<open>
  The layers themselves belong to the tensor library and are not part of the repository.
  Their shape rules are taken from the library's documentation, for batched input
  \<open>(N, C, D, H, W)\<close>: a convolution or a pooling with kernel \<open>k\<close>, stride \<open>s\<close> and
  padding \<open>p\<close> maps a spatial size \<open>d\<close> to \<open>\<lfloor>(d + 2p - k) / s\<rfloor> + 1\<close> and rejects a padded
  input smaller than its kernel, a transpose convolution maps it to \<open>(d - 1) s + k\<close>, an
  upsampling multiplies it by its scale factor, and a convolution rejects an input whose
  channel count is not the one it was declared with.
\<close>

definition window_out :: "nat \<Rightarrow> nat \<Rightarrow> nat \<Rightarrow> nat \<Rightarrow> nat" where
  "window_out d k s p = (d + 2 * p - k) div s + 1"

fun layer_shape :: "layer \<Rightarrow> nat list \<Rightarrow> error + nat list"
and seq_shape :: "layer list \<Rightarrow> nat list \<Rightarrow> error + nat list" where
  "layer_shape (Conv3d i out k s p b) sh =
     (case sh of
        [n, c, d, h, w] \<Rightarrow>
          if c \<noteq> i then Inl (ChannelMismatch i c)
          else if d + 2 * p < k \<or> h + 2 * p < k \<or> w + 2 * p < k then Inl OutputSizeTooSmall
          else Inr [n, out, window_out d k s p, window_out h k s p, window_out w k s p]
      | _ \<Rightarrow> Inl NotFiveDimensional)"
| "layer_shape (ConvTranspose3d i out k s) sh =
     (case sh of
        [n, c, d, h, w] \<Rightarrow>
          if c \<noteq> i then Inl (ChannelMismatch i c)
          else if d = 0 \<or> h = 0 \<or> w = 0 then Inl OutputSizeTooSmall
          else Inr [n, out, (d - 1) * s + k, (h - 1) * s + k, (w - 1) * s + k]
      | _ \<Rightarrow> Inl NotFiveDimensional)"
| "layer_shape (Upsample f) sh =
     (case sh of
        [n, c, d, h, w] \<Rightarrow>
          if d * f = 0 \<or> h * f = 0 \<or> w * f = 0 then Inl OutputSizeTooSmall
          else Inr [n, c, d * f, h * f, w * f]
      | _ \<Rightarrow> Inl NotFiveDimensional)"
| "layer_shape (MaxPool3d k s p) sh =
     (case sh of
        [n, c, d, h, w] \<Rightarrow>
          if d + 2 * p < k \<or> h + 2 * p < k \<or> w + 2 * p < k then Inl OutputSizeTooSmall
          else Inr [n, c, window_out d k s p, window_out h k s p, window_out w k s p]
      | _ \<Rightarrow> Inl NotFiveDimensional)"
| "layer_shape ReLU sh = Inr sh"
| "layer_shape (Sequential ls) sh = seq_shape ls sh"
| "seq_shape [] sh = Inr sh"
| "seq_shape (l # ls) sh =
     (case layer_shape l sh of Inl e \<Rightarrow> Inl e | Inr sh' \<Rightarrow> seq_shape ls sh')"

text \<open>
  \<open>F.interpolate(t, size=size, mode='trilinear')\<close> resamples the three spatial axes of a
  five-dimensional tensor to \<open>size\<close>.
\<close>

definition interpolate :: "tensor \<Rightarrow> nat list \<Rightarrow> tensor run" where
  "interpolate t sz =
     and_then (logged (Interpolate t sz)) (\<lambda>_.
       case tshape t of
         [n, c, d, h, w] \<Rightarrow>
           if length sz \<noteq> 3 then raise ValueError
           else if 0 \<in> set [d, h, w] \<or> 0 \<in> set sz then raise OutputSizeTooSmall
           else ret \<lparr>tshape = [n, c] @ sz, grad_fn = InterpolateOut (grad_fn t)\<rparr>
       | _ \<Rightarrow> raise NotFiveDimensional)"

text \<open>
  \<open>torch.cat([a, b], dim=1)\<close>: the two tensors agree on every axis but the channel axis,
  whose sizes add up.
\<close>

definition cat :: "tensor \<Rightarrow> tensor \<Rightarrow> tensor run" where
  "cat a b =
     and_then (logged (Cat [a, b])) (\<lambda>_.
       case (tshape a, tshape b) of
         (n # c # sp, n' # c' # sp') \<Rightarrow>
           if n = n' \<and> sp = sp'
           then ret \<lparr>tshape = n # (c + c') # sp, grad_fn = CatOut [grad_fn a, grad_fn b]\<rparr>
           else raise CatSizeMismatch
       | _ \<Rightarrow> raise IndexError)"

text \<open>Indexing a Python list: a negative index counts from the end.\<close>

definition py_index :: "'a list \<Rightarrow> int \<Rightarrow> error + 'a" where
  "py_index xs i =
     (if 0 \<le> i \<and> i < int (length xs) then Inr (xs ! nat i)
      else if i < 0 \<and> - int (length xs) \<le> i then Inr (xs ! nat (int (length xs) + i))
      else Inl IndexError)"

subsection \<open>Calling a layer\<close>

text \<open>
  Calling a layer records the call and gives the tensor of the new shape; a
  \<open>Sequential\<close> container records its own call and then calls its children in order,
  each under its index.
\<close>

fun call_layer :: "path \<Rightarrow> layer \<Rightarrow> tensor \<Rightarrow> tensor run"
and call_children :: "path \<Rightarrow> nat \<Rightarrow> layer list \<Rightarrow> tensor \<Rightarrow> tensor run" where
  "call_layer p (Sequential ls) x =
     and_then (logged (Call p [x])) (\<lambda>_. call_children p 0 ls x)"
| "call_layer p l x =
     and_then (logged (Call p [x])) (\<lambda>_.
     and_then (lift (layer_shape l (tshape x))) (\<lambda>sh.
       ret \<lparr>tshape = sh, grad_fn = LayerOut p (grad_fn x)\<rparr>))"
| "call_children p i [] x = ret x"
| "call_children p i (l # ls) x =
     and_then (call_layer (p @ [Idx i]) l x) (\<lambda>y. call_children p (Suc i) ls y)"

section \<open>The forward passes\<close>

text \<open>\<^verbatim>\<open>DsBlock.forward\<close>, of the block found at path \<open>p\<close>. It returns \<open>(out, before_pool)\<close>.\<close>

definition DsBlock_forward :: "path \<Rightarrow> DsBlock \<Rightarrow> tensor \<Rightarrow> (tensor \<times> tensor) run" where
  "DsBlock_forward p blk x =
     and_then (call_layer (p @ [Attr ''conv'']) (ds_conv blk) x) (\<lambda>out.
     and_then (call_layer (p @ [Attr ''relu'']) (ds_relu blk) out) (\<lambda>out.
     let before_pool = out in
     and_then (if pooling blk
               then (case mp blk of
                       Some m \<Rightarrow> call_layer (p @ [Attr ''mp'']) m out
                     | None \<Rightarrow> raise AttributeError)
               else ret out) (\<lambda>out.
     ret (out, before_pool))))"

definition DsBlock_call :: "path \<Rightarrow> DsBlock \<Rightarrow> tensor \<Rightarrow> (tensor \<times> tensor) run" where
  "DsBlock_call p blk x = and_then (logged (Call p [x])) (\<lambda>_. DsBlock_forward p blk x)"

text \<open>\<^verbatim>\<open>UsBlock.forward(before_pool, x)\<close>\<close>

definition UsBlock_forward :: "path \<Rightarrow> up_attrs \<Rightarrow> tensor \<Rightarrow> tensor \<Rightarrow> tensor run" where
  "UsBlock_forward p blk before_pool x =
     and_then (call_layer (p @ [Attr ''upconv'']) (upconv blk) x) (\<lambda>x.
     and_then (call_layer (p @ [Attr ''conv'']) (us_conv blk) x) (\<lambda>x.
     and_then (call_layer (p @ [Attr ''relu'']) (us_relu blk) x) (\<lambda>x.
     ret x)))"

text \<open>\<^verbatim>\<open>UsBlockRes.forward(before_pool, x)\<close>; \<open>t.shape[2:]\<close> is \<open>drop 2 (tshape t)\<close>.\<close>

definition UsBlockRes_forward :: "path \<Rightarrow> up_attrs \<Rightarrow> tensor \<Rightarrow> tensor \<Rightarrow> tensor run" where
  "UsBlockRes_forward p blk before_pool x =
     and_then (call_layer (p @ [Attr ''upconv'']) (upconv blk) x) (\<lambda>x.
     let target_size = drop 2 (tshape x) in
     and_then (if drop 2 (tshape before_pool) \<noteq> target_size
               then interpolate before_pool target_size
               else ret before_pool) (\<lambda>before_pool.
     and_then (cat x before_pool) (\<lambda>x.
     and_then (call_layer (p @ [Attr ''conv'']) (us_conv blk) x) (\<lambda>x.
     and_then (call_layer (p @ [Attr ''relu'']) (us_relu blk) x) (\<lambda>x.
     ret x)))))"

definition up_call :: "path \<Rightarrow> up_module \<Rightarrow> tensor \<Rightarrow> tensor \<Rightarrow> tensor run" where
  "up_call p m before_pool x =
     and_then (logged (Call p [before_pool, x])) (\<lambda>_.
       case m of
         UsBlock blk \<Rightarrow> UsBlock_forward p blk before_pool x
       | UsBlockRes blk \<Rightarrow> UsBlockRes_forward p blk before_pool x)"

text \<open>
  \<^verbatim>\<open>ELUNet.forward\<close>. The first loop, \<^verbatim>\<open>for i, module in enumerate(self.down_convs)\<close>,
  carries \<open>x\<close>, \<open>encoder_outs\<close> and \<open>skip_connections\<close>; \<open>n\<close> is \<open>len(self.down_convs)\<close>.
\<close>

fun encoder_loop ::
  "nat \<Rightarrow> nat \<Rightarrow> DsBlock list \<Rightarrow> tensor \<times> tensor list \<times> tensor list
     \<Rightarrow> (tensor \<times> tensor list \<times> tensor list) run" where
  "encoder_loop n i [] st = ret st"
| "encoder_loop n i (m # ms) (x, encoder_outs, skip_connections) =
     and_then (DsBlock_call [Attr ''down_convs'', Idx i] m x) (\<lambda>(x, before_pool).
       encoder_loop n (Suc i) ms
         (x, encoder_outs @ [before_pool],
          if int i < int n - 1 then skip_connections @ [x] else skip_connections))"

text \<open>
  The second loop, \<^verbatim>\<open>for i, module in enumerate(self.up_convs)\<close>, carries \<open>x\<close>; \<open>cv\<close> is
  \<open>self.conv\<close>.
\<close>

fun decoder_loop ::
  "layer \<Rightarrow> tensor list \<Rightarrow> tensor list \<Rightarrow> nat \<Rightarrow> up_module list \<Rightarrow> tensor \<Rightarrow> tensor run" where
  "decoder_loop cv skip_connections encoder_outs i [] x = ret x"
| "decoder_loop cv skip_connections encoder_outs i (m # ms) x =
     and_then (lift (py_index skip_connections (- (int i + 1)))) (\<lambda>skip.
     and_then (up_call [Attr ''up_convs'', Idx i] m skip x) (\<lambda>x.
     and_then (lift (py_index encoder_outs (- (int i + 1)))) (\<lambda>before_pool.
     let target_size = drop 2 (tshape x) in
     and_then (if drop 2 (tshape before_pool) \<noteq> target_size
               then interpolate before_pool target_size
               else ret before_pool) (\<lambda>before_pool.
     and_then (cat x before_pool) (\<lambda>x.
     and_then (call_layer [Attr ''conv''] cv x) (\<lambda>x.
       decoder_loop cv skip_connections encoder_outs (Suc i) ms x))))))"

definition ELUNet_forward :: "ELUNet \<Rightarrow> tensor \<Rightarrow> (tensor \<times> tensor list) run" where
  "ELUNet_forward net x =
     and_then (call_layer [Attr ''conv_start''] (conv_start net) x) (\<lambda>x.
     and_then (encoder_loop (length (down_convs net)) 0 (down_convs net) (x, [], []))
       (\<lambda>(x, encoder_outs, skip_connections).
     and_then (decoder_loop (conv net) skip_connections encoder_outs 0 (up_convs net) x) (\<lambda>x.
     ret (x, skip_connections))))"

section \<open>Reading a trace\<close>

text \<open>The paths of the modules a trace records a call of, in order.\<close>

fun called :: "event \<Rightarrow> path list" where
  "called (Call p ts) = [p]"
| "called (Interpolate t sz) = []"
| "called (Cat ts) = []"

definition called_paths :: "event list \<Rightarrow> path list" where
  "called_paths tr = concat (map called tr)"

text \<open>The tensors a trace records a resampling of, in order.\<close>

fun resampled :: "event \<Rightarrow> tensor list" where
  "resampled (Interpolate t sz) = [t]"
| "resampled (Call p ts) = []"
| "resampled (Cat ts) = []"

definition resamplings :: "event list \<Rightarrow> tensor list" where
  "resamplings tr = concat (map resampled tr)"

text \<open>
  The module that produced a tensor: the first two steps of the path of the layer whose
  output it is, which for a layer inside a stage name the stage, as \<open>down_convs.2\<close>.
\<close>

definition producer :: "tensor \<Rightarrow> path" where
  "producer t = (case grad_fn t of LayerOut p g \<Rightarrow> take 2 p | _ \<Rightarrow> [])"

text \<open>A layer that computes by itself, as opposed to a container of layers.\<close>

fun is_leaf :: "layer \<Rightarrow> bool" where
  "is_leaf (Sequential ls) = False"
| "is_leaf l = True"

text \<open>
  An encoder stage whose activation and pooling are layers, as \<^verbatim>\<open>DsBlock.__init__\<close>
  makes them, so that the tensor the stage forwards is the output of one of its layers.
\<close>

definition leaf_stage :: "DsBlock \<Rightarrow> bool" where
  "leaf_stage blk =
     (is_leaf (ds_relu blk) \<and> (case mp blk of None \<Rightarrow> True | Some m \<Rightarrow> is_leaf m))"

text \<open>The calls of a trace with the shapes of the tensors each one received.\<close>

fun call_shape :: "event \<Rightarrow> (path \<times> nat list list) list" where
  "call_shape (Call p ts) = [(p, map tshape ts)]"
| "call_shape (Interpolate t sz) = []"
| "call_shape (Cat ts) = []"

definition call_shapes :: "event list \<Rightarrow> (path \<times> nat list list) list" where
  "call_shapes tr = concat (map call_shape tr)"

text \<open>What a pass of the network returned, as shapes: the output and the skip tensors.\<close>

definition returned_shapes ::
  "(tensor \<times> tensor list) run \<Rightarrow> error + nat list \<times> nat list list" where
  "returned_shapes m =
     (case outcome m of Inl e \<Rightarrow> Inl e | Inr (y, skips) \<Rightarrow> Inr (tshape y, map tshape skips))"

section \<open>Example networks and inputs\<close>

text \<open>
  The smallest network with a decoder stage, as the constructor builds it for
  \<open>num_classes = 4\<close>, \<open>in_channels = 1\<close>, \<open>depth = 2\<close>, \<open>start_filts = 1\<close>, in each
  upsampling mode and with each block type.
\<close>

definition depth2_plain :: ELUNet where
  "depth2_plain =
     \<lparr>conv_start = Conv3d 1 1 3 1 1 True,
      down_convs = [\<lparr>ds_conv = Conv3d 1 2 3 1 1 True, ds_relu = ReLU, pooling = True,
                      mp = Some (MaxPool3d 2 2 0)\<rparr>,
                    \<lparr>ds_conv = Conv3d 2 4 3 1 1 True, ds_relu = ReLU, pooling = False,
                      mp = None\<rparr>],
      up_convs = [UsBlock \<lparr>upconv = ConvTranspose3d 4 2 2 2,
                           us_conv = Conv3d 6 2 3 1 1 True, us_relu = ReLU\<rparr>],
      conv_final = Conv3d 2 4 1 1 0 True,
      conv = Conv3d 4 2 3 1 1 True\<rparr>"

definition depth2_res :: ELUNet where
  "depth2_res =
     \<lparr>conv_start = Conv3d 1 1 3 1 1 True,
      down_convs = [\<lparr>ds_conv = Conv3d 1 2 3 1 1 True, ds_relu = ReLU, pooling = True,
                      mp = Some (MaxPool3d 2 2 0)\<rparr>,
                    \<lparr>ds_conv = Conv3d 2 4 3 1 1 True, ds_relu = ReLU, pooling = False,
                      mp = None\<rparr>],
      up_convs = [UsBlockRes \<lparr>upconv = ConvTranspose3d 6 2 2 2,
                              us_conv = Conv3d 4 2 3 1 1 True, us_relu = ReLU\<rparr>],
      conv_final = Conv3d 2 4 1 1 0 True,
      conv = Conv3d 4 2 3 1 1 True\<rparr>"

text \<open>
  The same network after two attributes are replaced, the way the script of
  \<^verbatim>\<open>ELUNet.py\<close> replaces \<open>conv_start\<close>: the convolution of the decoder block is declared
  for the 2 channels it receives, and the fusion convolution for the 6 channels of the
  concatenation. No constructor call gives this network; it is one whose forward pass
  returns.
\<close>

definition depth2_patched :: ELUNet where
  "depth2_patched =
     depth2_plain
       \<lparr>up_convs := [UsBlock \<lparr>upconv = ConvTranspose3d 4 2 2 2,
                              us_conv = Conv3d 2 2 3 1 1 True, us_relu = ReLU\<rparr>],
        conv := Conv3d 6 2 3 1 1 True\<rparr>"

text \<open>An input of one channel whose spatial sizes are multiples of \<open>2^(2 - 1)\<close>.\<close>

definition cube2 :: tensor where
  "cube2 = \<lparr>tshape = [1, 1, 2, 2, 2], grad_fn = Input\<rparr>"

text \<open>
  The tensors of a pass of these networks over \<open>cube2\<close>, up to the end of the encoder
  (which the three networks share): the output of \<open>conv_start\<close>, the feature map of stage 0
  before pooling, the tensor stage 0 forwards, and the tensor stage 1 forwards.
\<close>

definition started :: tensor where
  "started = \<lparr>tshape = [1, 1, 2, 2, 2], grad_fn = LayerOut [Attr ''conv_start''] Input\<rparr>"

definition pre_pool0 :: tensor where
  "pre_pool0 =
     \<lparr>tshape = [1, 2, 2, 2, 2],
      grad_fn = LayerOut [Attr ''down_convs'', Idx 0, Attr ''relu'']
                  (LayerOut [Attr ''down_convs'', Idx 0, Attr ''conv''] (grad_fn started))\<rparr>"

definition skip0 :: tensor where
  "skip0 =
     \<lparr>tshape = [1, 2, 1, 1, 1],
      grad_fn = LayerOut [Attr ''down_convs'', Idx 0, Attr ''mp''] (grad_fn pre_pool0)\<rparr>"

definition bottom :: tensor where
  "bottom =
     \<lparr>tshape = [1, 4, 1, 1, 1],
      grad_fn = LayerOut [Attr ''down_convs'', Idx 1, Attr ''relu'']
                  (LayerOut [Attr ''down_convs'', Idx 1, Attr ''conv''] (grad_fn skip0))\<rparr>"

section \<open>Arrays\<close>

text \<open>
  \<^verbatim>\<open>Model/cardiacdata.py\<close> works on arrays of the array library. An array is its shape and
  the element at each index (one position per axis); only the elements at indices within
  the shape matter. The element type is left open: it is a number, and the conversions
  between number formats that the library makes are not modelled.
\<close>

record 'a ndarray =
  shape :: "nat list"
  item :: "nat list \<Rightarrow> 'a"

text \<open>
  A bound of a Python slice on an axis of length \<open>n\<close>: a negative bound counts from the end,
  and every bound is clipped to the axis.
\<close>

definition slice_bound :: "nat \<Rightarrow> int \<Rightarrow> nat" where
  "slice_bound n i = (if i < 0 then nat (max 0 (int n + i)) else min n (nat i))"

text \<open>\<open>a[..., start:stop, ...]\<close> with the slice on axis \<open>k\<close> and \<open>:\<close> on the others.\<close>

definition slice_axis :: "nat \<Rightarrow> int \<Rightarrow> int \<Rightarrow> 'a ndarray \<Rightarrow> 'a ndarray" where
  "slice_axis k start stop a =
     (let n = shape a ! k;
          lo = slice_bound n start;
          hi = slice_bound n stop
      in \<lparr>shape = (shape a)[k := hi - lo],
          item = (\<lambda>idx. item a (idx[k := idx ! k + lo]))\<rparr>)"

text \<open>\<open>np.zeros(sh)\<close>\<close>

definition zeros :: "nat list \<Rightarrow> ('a::zero) ndarray" where
  "zeros sh = \<lparr>shape = sh, item = (\<lambda>idx. 0)\<rparr>"

text \<open>
  \<open>np.concatenate((a, b), axis=k)\<close>: the arrays have the same number of axes and agree on
  every axis but \<open>k\<close>; the elements of \<open>b\<close> follow those of \<open>a\<close> along axis \<open>k\<close>.
\<close>

definition concatenate :: "'a ndarray \<Rightarrow> 'a ndarray \<Rightarrow> nat \<Rightarrow> error + 'a ndarray" where
  "concatenate a b k =
     (if length (shape a) \<noteq> length (shape b) \<or> length (shape a) \<le> k then Inl ValueError
      else if (shape a)[k := 0] \<noteq> (shape b)[k := 0] then Inl ValueError
      else Inr \<lparr>shape = (shape a)[k := shape a ! k + shape b ! k],
                item = (\<lambda>idx. if idx ! k < shape a ! k then item a idx
                               else item b (idx[k := idx ! k - shape a ! k]))\<rparr>)"

text \<open>\<open>np.expand_dims(a, axis=0)\<close> and the \<open>unsqueeze(0)\<close> of a tensor\<close>

definition expand_dims0 :: "'a ndarray \<Rightarrow> 'a ndarray" where
  "expand_dims0 a = \<lparr>shape = 1 # shape a, item = (\<lambda>idx. item a (tl idx))\<rparr>"

text \<open>
  \<open>np.reshape(a, sh)\<close>: the elements in row-major order, under a shape of the same number
  of elements.
\<close>

definition ravel :: "nat list \<Rightarrow> nat list \<Rightarrow> nat" where
  "ravel sh idx = foldl (\<lambda>acc (n, i). acc * n + i) 0 (zip sh idx)"

fun unravel :: "nat list \<Rightarrow> nat \<Rightarrow> nat list" where
  "unravel [] k = []"
| "unravel (n # ns) k = (k div prod_list ns) # unravel ns (k mod prod_list ns)"

definition reshape :: "'a ndarray \<Rightarrow> nat list \<Rightarrow> error + 'a ndarray" where
  "reshape a sh =
     (if prod_list sh \<noteq> prod_list (shape a) then Inl ValueError
      else Inr \<lparr>shape = sh, item = (\<lambda>idx. item a (unravel (shape a) (ravel sh idx)))\<rparr>)"

text \<open>\<open>a[i]\<close> for an integer \<open>i\<close>: the sub-array at position \<open>i\<close> of the first axis.\<close>

definition index0 :: "'a ndarray \<Rightarrow> int \<Rightarrow> error + 'a ndarray" where
  "index0 a i =
     (case shape a of
        [] \<Rightarrow> Inl IndexError
      | n # sh \<Rightarrow>
          if 0 \<le> i \<and> i < int n then Inr \<lparr>shape = sh, item = (\<lambda>idx. item a (nat i # idx))\<rparr>
          else if i < 0 \<and> - int n \<le> i
            then Inr \<lparr>shape = sh, item = (\<lambda>idx. item a (nat (int n + i) # idx))\<rparr>
          else Inl IndexError)"

text \<open>The indices within a shape, in row-major order, and the elements of an array.\<close>

fun all_indices :: "nat list \<Rightarrow> nat list list" where
  "all_indices [] = [[]]"
| "all_indices (n # ns) = concat (map (\<lambda>i. map ((#) i) (all_indices ns)) [0 ..< n])"

definition elements :: "'a ndarray \<Rightarrow> 'a list" where
  "elements a = map (item a) (all_indices (shape a))"

section \<open>Cropping and normalising\<close>

text \<open>
  \<^verbatim>\<open>normalize_img\<close>, over the real numbers: \<open>np.mean\<close> and \<open>np.std\<close> (the population
  standard deviation) of all elements. The rounding of 32-bit floats and the
  not-a-number results of a division by a zero deviation are outside the model.
\<close>

definition mean :: "real ndarray \<Rightarrow> real" where
  "mean a = sum_list (elements a) / real (length (elements a))"

definition std :: "real ndarray \<Rightarrow> real" where
  "std a = sqrt (sum_list (map (\<lambda>v. (v - mean a)\<^sup>2) (elements a)) / real (length (elements a)))"

definition normalize_img :: "real ndarray \<Rightarrow> real ndarray" where
  "normalize_img img =
     (let img1 = \<lparr>shape = shape img, item = (\<lambda>idx. item img idx - mean img)\<rparr>
      in \<lparr>shape = shape img1, item = (\<lambda>idx. item img1 idx / std img1)\<rparr>)"

text \<open>
  \<^verbatim>\<open>crop_img\<close>. For a size \<open>n\<close>, \<open>int(n / 2)\<close> is \<open>n div 2\<close>. Reading \<open>sh[3]\<close> raises on an
  array of fewer than four axes.
\<close>

definition crop_img :: "('a::zero) ndarray \<Rightarrow> error + 'a ndarray" where
  "crop_img img =
     (let sizex = 144; sizey = 144; sizez = 8;
          sh = shape img
      in if length sh < 4 then Inl IndexError
         else
           let midptx = int (sh ! 2 div 2);
               midpty = int (sh ! 3 div 2)
           in if sh ! 1 < 8 then
                let residue = 8 - sh ! 1;
                    a = zeros [sh ! 0, residue, 144, 144];
                    img = slice_axis 3 (midpty - sizey div 2) (midpty + sizey div 2)
                            (slice_axis 2 (midptx - sizex div 2) (midptx + sizex div 2) img)
                in concatenate img a 1
              else
                let midptz = int (sh ! 1 div 2)
                in Inr (slice_axis 3 (midpty - sizey div 2) (midpty + sizey div 2)
                         (slice_axis 2 (midptx - sizex div 2) (midptx + sizex div 2)
                           (slice_axis 1 (midptz - sizez div 2) (midptz + sizez div 2) img))))"

text \<open>\<^verbatim>\<open>crop_label\<close>: the same on an array whose axes are depth, rows and columns.\<close>

definition crop_label :: "('a::zero) ndarray \<Rightarrow> error + 'a ndarray" where
  "crop_label img =
     (let sizex = 144; sizey = 144; sizez = 8;
          sh = shape img
      in if length sh < 3 then Inl IndexError
         else
           let midptx = int (sh ! 1 div 2);
               midpty = int (sh ! 2 div 2)
           in if sh ! 0 < 8 then
                let residue = 8 - sh ! 0;
                    a = zeros [residue, 144, 144];
                    img = slice_axis 2 (midpty - sizey div 2) (midpty + sizey div 2)
                            (slice_axis 1 (midptx - sizex div 2) (midptx + sizex div 2) img)
                in concatenate img a 0
              else
                let midptz = int (sh ! 0 div 2)
                in Inr (slice_axis 2 (midpty - sizey div 2) (midpty + sizey div 2)
                         (slice_axis 1 (midptx - sizex div 2) (midptx + sizex div 2)
                           (slice_axis 0 (midptz - sizez div 2) (midptz + sizez div 2) img))))"

section \<open>Example volumes\<close>

text \<open>
  A volume of 30 frames and a label volume that already have the canonical size, and a
  volume and a label volume of 6 slices of 256 by 216, none of whose elements is 0.
\<close>

definition canonical_volume :: "int ndarray" where
  "canonical_volume = \<lparr>shape = [30, 8, 144, 144], item = (\<lambda>idx. int (sum_list idx))\<rparr>"

definition canonical_label :: "int ndarray" where
  "canonical_label = \<lparr>shape = [8, 144, 144], item = (\<lambda>idx. int (sum_list idx mod 4))\<rparr>"

definition shallow_volume :: "int ndarray" where
  "shallow_volume = \<lparr>shape = [30, 6, 256, 216], item = (\<lambda>idx. 1 + int (sum_list idx))\<rparr>"

definition shallow_label :: "int ndarray" where
  "shallow_label = \<lparr>shape = [6, 256, 216], item = (\<lambda>idx. 1 + int (sum_list idx mod 3))\<rparr>"

section \<open>Strings\<close>

text \<open>
  The string operations the dataset uses, on strings of bytes. \<open>re.findall(r'\d+', s)\<close>
  gives the maximal runs of decimal digits of \<open>s\<close>, from left to right.
\<close>

definition is_digit :: "char \<Rightarrow> bool" where
  "is_digit c = (c \<in> set ''0123456789'')"

function findall_digits :: "string \<Rightarrow> string list" where
  "findall_digits [] = []"
| "findall_digits (c # cs) =
     (if is_digit c
      then takeWhile is_digit (c # cs) # findall_digits (dropWhile is_digit cs)
      else findall_digits cs)"
  by pat_completeness auto
termination
  by (relation "measure length") (auto simp: length_dropWhile_le less_Suc_eq_le)

text \<open>\<open>s.zfill(width)\<close>: zeros are put on the left, after a leading sign if there is one.\<close>

definition zfill :: "string \<Rightarrow> nat \<Rightarrow> string" where
  "zfill s width =
     (if width \<le> length s then s
      else case s of
             [] \<Rightarrow> replicate width CHR ''0''
           | c # cs \<Rightarrow>
               if c = CHR ''+'' \<or> c = CHR ''-''
               then c # replicate (width - length s) CHR ''0'' @ cs
               else replicate (width - length s) CHR ''0'' @ s)"

text \<open>\<open>s.split(sep)\<close> for a separator of one character.\<close>

fun str_split :: "char \<Rightarrow> string \<Rightarrow> string list" where
  "str_split sep [] = [[]]"
| "str_split sep (c # cs) =
     (if c = sep then [] # str_split sep cs
      else case str_split sep cs of
             [] \<Rightarrow> [[c]]
           | w # ws \<Rightarrow> (c # w) # ws)"

text \<open>
  \<open>int(s)\<close>: white space around the number is dropped, a sign may lead, and the digits
  may be grouped by single underscores; anything else raises \<open>ValueError\<close>.
\<close>

definition is_space :: "char \<Rightarrow> bool" where
  "is_space c =
     (c \<in> set [CHR '' '', CHR 0x09, CHR 0x0A, CHR 0x0B, CHR 0x0C, CHR 0x0D,
                CHR 0x1C, CHR 0x1D, CHR 0x1E, CHR 0x1F])"

definition strip :: "string \<Rightarrow> string" where
  "strip s = rev (dropWhile is_space (rev (dropWhile is_space s)))"

fun digits_of :: "string \<Rightarrow> string option" where
  "digits_of [] = None"
| "digits_of [c] = (if is_digit c then Some [c] else None)"
| "digits_of (c # d # cs) =
     (if \<not> is_digit c then None
      else if d = CHR ''_'' then
        (case cs of
           [] \<Rightarrow> None
         | e # es \<Rightarrow> if is_digit e then map_option ((#) c) (digits_of cs) else None)
      else map_option ((#) c) (digits_of (d # cs)))"

definition digit_val :: "char \<Rightarrow> int" where
  "digit_val c = int (of_char c) - 48"

definition py_int :: "string \<Rightarrow> error + int" where
  "py_int s =
     (let t = strip s;
          (neg, body) = (case t of
                           [] \<Rightarrow> (False, t)
                         | c # cs \<Rightarrow> if c = CHR ''-'' then (True, cs)
                                     else if c = CHR ''+'' then (False, cs)
                                     else (False, t))
      in case digits_of body of
           None \<Rightarrow> Inl ValueError
         | Some ds \<Rightarrow>
             let v = foldl (\<lambda>acc c. acc * 10 + digit_val c) 0 ds
             in Inr (if neg then - v else v))"

text \<open>\<open>str(n)\<close> for an integer \<open>n\<close>.\<close>

fun str_nat :: "nat \<Rightarrow> string" where
  "str_nat n =
     (if n < 10 then [''0123456789'' ! n]
      else str_nat (n div 10) @ [''0123456789'' ! (n mod 10)])"

definition str_int :: "int \<Rightarrow> string" where
  "str_int i = (if i < 0 then CHR ''-'' # str_nat (nat (- i)) else str_nat (nat i))"

section \<open>The dataset\<close>

text \<open>A failing step ends the computation with its error, as an uncaught exception does.\<close>

definition after :: "error + 'a \<Rightarrow> ('a \<Rightarrow> error + 'b) \<Rightarrow> error + 'b" where
  "after r f = (case r of Inl e \<Rightarrow> Inl e | Inr a \<Rightarrow> f a)"

text \<open>
  The files the constructor reads: the image files with the array that
  \<open>sitk.GetArrayFromImage(sitk.ReadImage(path))\<close> gives for each, and the text files with
  their content.
\<close>

record files =
  images :: "string \<Rightarrow> real ndarray option"
  texts :: "string \<Rightarrow> string option"

definition ReadImage :: "files \<Rightarrow> string \<Rightarrow> error + real ndarray" where
  "ReadImage fs path =
     (case images fs path of None \<Rightarrow> Inl (ImageReadError path) | Some a \<Rightarrow> Inr a)"

definition read_text :: "files \<Rightarrow> string \<Rightarrow> error + string" where
  "read_text fs path =
     (case texts fs path of None \<Rightarrow> Inl (FileNotFoundError path) | Some s \<Rightarrow> Inr s)"

definition IMG_DIR :: string where
  "IMG_DIR = ''/Users/darshan/Documents/Engineering/8th-Semester/FrontEnd/ACDC/database/training''"

text \<open>
  The names \<^verbatim>\<open>cardiacdata.__init__\<close> computes. \<open>ptnum\<close> (line 99) is the first number of
  the folder name, filled to three digits.
\<close>

definition ptnum_of :: "string \<Rightarrow> error + string" where
  "ptnum_of folder_name =
     after (py_index (findall_digits folder_name) 0) (\<lambda>m. Inr (zfill m 3))"

definition img_dir :: "string \<Rightarrow> string" where
  "img_dir ptnum = IMG_DIR @ ''/patient'' @ ptnum @ ''/patient'' @ ptnum @ ''_4d.nii.gz''"

definition cfg_path :: "string \<Rightarrow> string" where
  "cfg_path ptnum = IMG_DIR @ ''/patient'' @ ptnum @ ''/'' @ ''Info.cfg''"

text \<open>
  \<open>int(text.split("\n")[k].split(":")[1])\<close>: the frame index on line \<open>k\<close> of the
  configuration (lines 107 and 116).
\<close>

definition frame_of :: "string \<Rightarrow> int \<Rightarrow> error + int" where
  "frame_of text k =
     after (py_index (str_split (CHR 0x0A) text) k) (\<lambda>line.
     after (py_index (str_split CHR '':'' line) 1) (\<lambda>v.
     py_int v))"

text \<open>The name of the label file of a frame (lines 108 to 109 and 117 to 118).\<close>

definition gt_dir :: "string \<Rightarrow> int \<Rightarrow> string" where
  "gt_dir ptnum frame =
     IMG_DIR @ ''/patient'' @ ptnum @ ''/patient'' @ ptnum @ ''_frame''
       @ zfill (str_int frame) 2 @ ''_gt.nii.gz''"

text \<open>
  \<open>np.reshape(a, [a.shape[0] * a.shape[1], a.shape[2], a.shape[3]])\<close>, which lines 133 to
  137 apply to the image and to the label array.
\<close>

definition merge_frames :: "'a ndarray \<Rightarrow> error + 'a ndarray" where
  "merge_frames a =
     (let sh = shape a
      in if length sh < 4 then Inl IndexError
         else reshape a [sh ! 0 * sh ! 1, sh ! 2, sh ! 3])"

record cardiacdata =
  self_img :: "real ndarray"
  self_gt :: "real ndarray"
  self_len :: nat

text \<open>\<^verbatim>\<open>cardiacdata.__init__\<close>, in the order of its statements.\<close>

definition cardiacdata_init :: "files \<Rightarrow> string \<Rightarrow> error + cardiacdata" where
  "cardiacdata_init fs folder_name =
     after (ptnum_of folder_name) (\<lambda>ptnum.
     after (ReadImage fs (img_dir ptnum)) (\<lambda>dummy_img.
     after (crop_img dummy_img) (\<lambda>dummy_img.
     after (read_text fs (cfg_path ptnum)) (\<lambda>text.
     after (frame_of text 1) (\<lambda>es.
     after (ReadImage fs (gt_dir ptnum es)) (\<lambda>es_label.
     after (crop_label es_label) (\<lambda>es_label.
     after (read_text fs (cfg_path ptnum)) (\<lambda>text.
     after (frame_of text 0) (\<lambda>ed.
     after (ReadImage fs (gt_dir ptnum ed)) (\<lambda>ed_label.
     after (crop_label ed_label) (\<lambda>ed_label.
     let a = slice_axis 0 (ed - 1) ed dummy_img;
         b = slice_axis 0 (es - 1) es dummy_img
     in
     after (concatenate a b 0) (\<lambda>dummy_img.
     let dummy_img = normalize_img dummy_img;
         ed_label = expand_dims0 ed_label;
         es_label = expand_dims0 es_label
     in
     after (concatenate ed_label es_label 0) (\<lambda>dummy_gt.
     after (merge_frames dummy_img) (\<lambda>img3.
     after (merge_frames dummy_gt) (\<lambda>gt3.
     let img4 = expand_dims0 img3;
         gt4 = expand_dims0 gt3
     in Inr \<lparr>self_img = img4, self_gt = gt4, self_len = shape img4 ! 0\<rparr>)))))))))))))))"


text \<open>
  \<^verbatim>\<open>cardiacdata.__getitem__\<close>. \<open>long()\<close> turns each label value into the integer next to
  it towards zero. The values are real numbers here, and \<open>astype(np.float32)\<close> leaves them
  as they are.
\<close>

definition trunc :: "real \<Rightarrow> int" where
  "trunc v = (if v < 0 then \<lceil>v\<rceil> else \<lfloor>v\<rfloor>)"

definition long :: "real ndarray \<Rightarrow> int ndarray" where
  "long a = \<lparr>shape = shape a, item = (\<lambda>idx. trunc (item a idx))\<rparr>"

definition getitem :: "cardiacdata \<Rightarrow> int \<Rightarrow> error + real ndarray \<times> int ndarray" where
  "getitem ds i =
     after (index0 (self_img ds) i) (\<lambda>img.
     after (index0 (self_gt ds) i) (\<lambda>gt.
     let img = expand_dims0 img;
         gt = long gt
     in Inr (img, gt)))"


section \<open>Example files\<close>

text \<open>
  The configuration of a case whose end-diastolic frame is 1 and whose end-systolic frame
  is 10, a volume of 30 frames of 10 slices of 256 by 216, and two label volumes of 10
  slices, one for each of the two frames; and the files of case 5 that hold them.
\<close>

definition cfg_1_10 :: string where
  "cfg_1_10 = ''ED:1'' @ [CHR 0x0A] @ ''ES:10''"

definition cine_volume :: "real ndarray" where
  "cine_volume = \<lparr>shape = [30, 10, 256, 216], item = (\<lambda>idx. real (sum_list idx))\<rparr>"

definition label_volume :: "real ndarray" where
  "label_volume = \<lparr>shape = [10, 256, 216], item = (\<lambda>idx. real (sum_list idx mod 4))\<rparr>"

definition systole_label_volume :: "real ndarray" where
  "systole_label_volume =
     \<lparr>shape = [10, 256, 216], item = (\<lambda>idx. real (Suc (sum_list idx) mod 4))\<rparr>"

definition case5_files :: files where
  "case5_files =
     \<lparr>images = (\<lambda>path.
        if path = IMG_DIR @ ''/patient005/patient005_4d.nii.gz'' then Some cine_volume
        else if path = IMG_DIR @ ''/patient005/patient005_frame01_gt.nii.gz''
          then Some label_volume
        else if path = IMG_DIR @ ''/patient005/patient005_frame10_gt.nii.gz''
          then Some systole_label_volume
        else None),
      texts = (\<lambda>path.
        if path = IMG_DIR @ ''/patient005/Info.cfg'' then Some cfg_1_10 else None)\<rparr>"

text \<open>The files without one of the image files.\<close>

definition without_image :: "files \<Rightarrow> string \<Rightarrow> files" where
  "without_image fs path = fs\<lparr>images := (images fs)(path := None)\<rparr>"

text \<open>
  The files of the case of a given patient number that hold the volume and the
  configuration, and no label file.
\<close>

definition unlabelled_files :: "string \<Rightarrow> files" where
  "unlabelled_files ptnum =
     \<lparr>images = (\<lambda>path. if path = img_dir ptnum then Some cine_volume else None),
      texts = (\<lambda>path. if path = cfg_path ptnum then Some cfg_1_10 else None)\<rparr>"

section \<open>The upsampling switch\<close>

text \<open>
  Claim C9. For every pair of channel counts, \<^verbatim>\<open>upconv2x2\<close> called with any mode string
  other than "transpose" returns the trilinear branch, a fixed 2x trilinear upsample
  followed by a 1x1x1 convolution from the input to the output channel count; no mode
  string is rejected. Only the exact string "transpose" gives the transpose convolution
  with kernel 2 and stride 2.
\<close>

theorem upconv2x2_mode_switch:
  "(mode \<noteq> ''transpose'' \<longrightarrow>
      upconv2x2 i out mode = Sequential [Upsample 2, Conv3d i out 1 1 0 True])
   \<and> upconv2x2 i out ''transpose'' = ConvTranspose3d i out 2 2
   \<and> (upconv2x2 i out mode = ConvTranspose3d i out 2 2 \<longleftrightarrow> mode = ''transpose'')"
  by (simp add: upconv2x2_def conv1x1_def)

theorem upconv2x2_mode_switch_witness:
  "''transpoze'' \<noteq> ''transpose''
   \<and> upconv2x2 16 8 ''transpoze'' = Sequential [Upsample 2, Conv3d 16 8 1 1 0 True]
   \<and> upconv2x2 16 8 ''trilinear'' = Sequential [Upsample 2, Conv3d 16 8 1 1 0 True]
   \<and> upconv2x2 16 8 '''' = Sequential [Upsample 2, Conv3d 16 8 1 1 0 True]"
  using upconv2x2_mode_switch [of "''transpoze''" 16 8]
        upconv2x2_mode_switch [of "''trilinear''" 16 8]
        upconv2x2_mode_switch [of "''''" 16 8]
  by simp

section \<open>The stages the constructor builds\<close>

lemma encoder_pathway_fold:
  "foldl (\<lambda>(dcs, outs) i.
              let ins = F0 * 2 ^ i;
                  outs = ins * 2;
                  pool = (int i < depth - 1)
              in (dcs @ [DsBlock_init ins outs pool], Some outs))
           ([], None) [0 ..< n]
   = (map (\<lambda>i. DsBlock_init (F0 * 2 ^ i) (F0 * 2 ^ i * 2) (int i < depth - 1)) [0 ..< n],
      if n = 0 then None else Some (F0 * 2 ^ n))"
  by (induction n) (auto simp: Let_def)

lemma div_pow2_comm: "(a::nat) div 2 ^ n div 2 = a div (2 * 2 ^ n)"
  by (simp only: div_mult2_eq [symmetric] mult.commute)

lemma decoder_pathway_fold:
  "foldl (\<lambda>(ucs, outs) i.
              let ins = outs;
                  outs = ins div 2
              in (ucs @ [if res then UsBlockRes (UsBlockRes_init (ins + outs) outs up_mode)
                         else UsBlock (UsBlock_init ins outs up_mode)], outs))
           ([], outs0) [0 ..< n]
   = (map (\<lambda>i. if res then UsBlockRes (UsBlockRes_init (outs0 div 2 ^ i + outs0 div 2 ^ Suc i) (outs0 div 2 ^ Suc i) up_mode)
                 else UsBlock (UsBlock_init (outs0 div 2 ^ i) (outs0 div 2 ^ Suc i) up_mode)) [0 ..< n],
      outs0 div 2 ^ n)"
  by (induction n) (auto simp: Let_def div_pow2_comm)

lemma pow2_div: "j \<le> n \<Longrightarrow> (F0 * 2 ^ n) div 2 ^ j = F0 * 2 ^ (n - j :: nat)" for F0 :: nat
proof -
  assume "j \<le> n"
  then have "(2::nat) ^ n = 2 ^ (n - j) * 2 ^ j"
    by (simp add: power_add [symmetric])
  then have "F0 * 2 ^ n = (F0 * 2 ^ (n - j)) * 2 ^ j"
    by (simp only: mult.assoc)
  then show ?thesis by (simp only: div_mult_self_is_m zero_less_power zero_less_numeral)
qed

text \<open>
  Claim C4. For every depth \<open>D \<ge> 1\<close> and every start-filter count \<open>F0\<close>, the
  constructor succeeds and builds exactly \<open>D\<close> encoder stages and \<open>D - 1\<close> decoder stages.
  Encoder stage \<open>i\<close> is a convolution from \<open>F0 * 2^i\<close> to \<open>2 * F0 * 2^i\<close> channels, so
  the output width doubles from stage to stage; decoder stage \<open>j\<close> has output width
  \<open>F0 * 2^(D - 1 - j)\<close>, half the output width of the stage before it (for the first
  decoder stage, of the last encoder stage). This holds for both block types.
\<close>

theorem ELUNet_init_stages:
  assumes "1 \<le> depth"
  shows "\<exists>net. ELUNet_init num_classes in_channels depth F0 up_mode res = Inr net
     \<and> length (down_convs net) = nat depth
     \<and> length (up_convs net) = nat depth - 1
     \<and> (\<forall>i < nat depth.
            ds_conv (down_convs net ! i) = Conv3d (F0 * 2 ^ i) (2 * F0 * 2 ^ i) 3 1 1 True
          \<and> (i > 0 \<longrightarrow> out_width (ds_conv (down_convs net ! i))
                        = 2 * out_width (ds_conv (down_convs net ! (i - 1)))))
     \<and> (\<forall>j < nat depth - 1.
            up_out_width (up_convs net ! j) = F0 * 2 ^ (nat depth - 1 - j)
          \<and> 2 * up_out_width (up_convs net ! j)
              = (if j = 0 then out_width (ds_conv (last (down_convs net)))
                 else up_out_width (up_convs net ! (j - 1))))"
proof -
  define n where "n = nat depth - 1"
  have n: "nat depth = Suc n" "nat (depth - 1) = n"
    using assms by (simp_all add: n_def)
  define dcs where
    "dcs = map (\<lambda>i. DsBlock_init (F0 * 2 ^ i) (F0 * 2 ^ i * 2) (int i < depth - 1)) [0 ..< Suc n]"
  define o0 where "o0 = F0 * 2 ^ Suc n"
  define ucs where
    "ucs = map (\<lambda>i. if res then UsBlockRes (UsBlockRes_init (o0 div 2 ^ i + o0 div 2 ^ Suc i) (o0 div 2 ^ Suc i) up_mode)
                     else UsBlock (UsBlock_init (o0 div 2 ^ i) (o0 div 2 ^ Suc i) up_mode)) [0 ..< n]"
  define net where
    "net = \<lparr>conv_start = conv3x3 in_channels F0, down_convs = dcs, up_convs = ucs,
            conv_final = conv1x1 (o0 div 2 ^ n) num_classes,
            conv = conv3x3 (o0 div 2 ^ n * 2) (o0 div 2 ^ n)\<rparr>"
  have enc: "encoder_pathway depth F0 = (dcs, Some o0)"
    unfolding encoder_pathway_def n encoder_pathway_fold dcs_def o0_def by simp
  have dec: "decoder_pathway depth o0 up_mode res = (ucs, o0 div 2 ^ n)"
    unfolding decoder_pathway_def n decoder_pathway_fold ucs_def by simp
  have init: "ELUNet_init num_classes in_channels depth F0 up_mode res = Inr net"
    by (simp add: ELUNet_init_def enc dec net_def)
  have len: "length (down_convs net) = nat depth" "length (up_convs net) = nat depth - 1"
    by (simp_all add: net_def dcs_def ucs_def n)
  have dc: "ds_conv (down_convs net ! i) = Conv3d (F0 * 2 ^ i) (2 * F0 * 2 ^ i) 3 1 1 True"
    if "i < nat depth" for i
  proof -
    from that have "i < Suc n" by (simp add: n)
    then have "dcs ! i = DsBlock_init (F0 * 2 ^ i) (F0 * 2 ^ i * 2) (int i < depth - 1)"
      unfolding dcs_def by (simp only: nth_map_upt diff_zero add_0)
    then show ?thesis
      by (simp add: net_def DsBlock_init_def conv3x3_def mult.commute mult.left_commute)
  qed
  have dbl: "out_width (ds_conv (down_convs net ! i))
               = 2 * out_width (ds_conv (down_convs net ! (i - 1)))"
    if "i < nat depth" "0 < i" for i
  proof -
    from that obtain k where k: "i = Suc k" by (cases i) auto
    with that have "k < nat depth" by simp
    then show ?thesis using dc [OF that(1)] dc [of k] by (simp add: k)
  qed
  have o0j: "o0 div 2 ^ j = F0 * 2 ^ (Suc n - j)" if "j \<le> Suc n" for j
    unfolding o0_def using that by (rule pow2_div)
  have uc: "up_out_width (up_convs net ! j) = F0 * 2 ^ (n - j)" if "j < n" for j
  proof -
    from that have "ucs ! j = (if res then UsBlockRes (UsBlockRes_init (o0 div 2 ^ j + o0 div 2 ^ Suc j) (o0 div 2 ^ Suc j) up_mode)
                     else UsBlock (UsBlock_init (o0 div 2 ^ j) (o0 div 2 ^ Suc j) up_mode))"
      unfolding ucs_def by (simp only: nth_map_upt diff_zero add_0)
    moreover have "o0 div 2 ^ Suc j = F0 * 2 ^ (n - j)"
      using o0j [of "Suc j"] that by simp
    ultimately show ?thesis
      by (simp add: net_def up_out_width_def UsBlockRes_init_def UsBlock_init_def conv3x3_def)
  qed
  have lastdc: "out_width (ds_conv (last (down_convs net))) = F0 * 2 ^ Suc n"
  proof -
    have "last (down_convs net) = down_convs net ! n"
      using len(1) by (simp add: last_conv_nth n net_def dcs_def del: upt_Suc)
    then show ?thesis using dc [of n] by (simp add: n)
  qed
  have halve: "2 * up_out_width (up_convs net ! j)
              = (if j = 0 then out_width (ds_conv (last (down_convs net)))
                 else up_out_width (up_convs net ! (j - 1)))" if "j < n" for j
  proof (cases j)
    case 0
    then show ?thesis using uc [OF that] lastdc by simp
  next
    case (Suc k)
    then have k: "k < n" and "n - k = Suc (n - Suc k)" using that by simp_all
    then have e: "(2::nat) ^ (n - k) = 2 * 2 ^ (n - Suc k)" by (simp only: power_Suc)
    have "up_out_width (up_convs net ! Suc k) = F0 * 2 ^ (n - Suc k)"
      using uc [OF that] by (simp only: Suc)
    moreover have "up_out_width (up_convs net ! k) = F0 * (2 * 2 ^ (n - Suc k))"
      using uc [OF k] by (simp only: e)
    ultimately show ?thesis
      by (simp only: Suc diff_Suc_1 nat.simps if_False mult.left_commute)
  qed
  have enc_all: "\<forall>i < nat depth.
            ds_conv (down_convs net ! i) = Conv3d (F0 * 2 ^ i) (2 * F0 * 2 ^ i) 3 1 1 True
          \<and> (i > 0 \<longrightarrow> out_width (ds_conv (down_convs net ! i))
                        = 2 * out_width (ds_conv (down_convs net ! (i - 1))))"
  proof (intro allI impI conjI)
    fix i assume "i < nat depth"
    then show "ds_conv (down_convs net ! i) = Conv3d (F0 * 2 ^ i) (2 * F0 * 2 ^ i) 3 1 1 True"
      by (rule dc)
  next
    fix i assume "i < nat depth" "0 < i"
    then show "out_width (ds_conv (down_convs net ! i))
                 = 2 * out_width (ds_conv (down_convs net ! (i - 1)))"
      by (rule dbl)
  qed
  have dec_all: "\<forall>j < nat depth - 1.
            up_out_width (up_convs net ! j) = F0 * 2 ^ (nat depth - 1 - j)
          \<and> 2 * up_out_width (up_convs net ! j)
              = (if j = 0 then out_width (ds_conv (last (down_convs net)))
                 else up_out_width (up_convs net ! (j - 1)))"
    unfolding n diff_Suc_1
  proof (intro allI impI conjI)
    fix j assume "j < n"
    then show "up_out_width (up_convs net ! j) = F0 * 2 ^ (n - j)"
      by (rule uc)
  next
    fix j assume "j < n"
    then show "2 * up_out_width (up_convs net ! j)
              = (if j = 0 then out_width (ds_conv (last (down_convs net)))
                 else up_out_width (up_convs net ! (j - 1)))"
      by (rule halve)
  qed
  show ?thesis
    by (rule exI [of _ net]) (intro conjI init len enc_all dec_all)
qed



theorem ELUNet_init_stages_witness:
  "(1::int) \<le> 4 \<and>
   (\<exists>net. ELUNet_init 4 1 4 1 ''trilinear'' False = Inr net
     \<and> length (down_convs net) = 4
     \<and> length (up_convs net) = 3
     \<and> ds_conv (down_convs net ! 3) = Conv3d 8 16 3 1 1 True
     \<and> up_out_width (up_convs net ! 0) = 8
     \<and> up_out_width (up_convs net ! 2) = 2)"
proof -
  have d: "(1::int) \<le> 4" by simp
  obtain net where net: "ELUNet_init 4 1 4 1 ''trilinear'' False = Inr net"
    "length (down_convs net) = nat 4" "length (up_convs net) = nat 4 - 1"
    and enc: "\<And>i. i < nat 4 \<Longrightarrow> ds_conv (down_convs net ! i) = Conv3d (1 * 2 ^ i) (2 * 1 * 2 ^ i) 3 1 1 True"
    and dec: "\<And>j. j < nat 4 - 1 \<Longrightarrow> up_out_width (up_convs net ! j) = 1 * 2 ^ (nat 4 - 1 - j)"
    using ELUNet_init_stages [OF d, of 4 1 1 "''trilinear''" False] by auto
  have "ds_conv (down_convs net ! 3) = Conv3d 8 16 3 1 1 True" using enc [of 3] by simp
  moreover have "up_out_width (up_convs net ! 0) = 8" using dec [of 0] by simp
  moreover have "up_out_width (up_convs net ! 2) = 2" using dec [of 2] by simp
  ultimately have "ELUNet_init 4 1 4 1 ''trilinear'' False = Inr net
     \<and> length (down_convs net) = 4
     \<and> length (up_convs net) = 3
     \<and> ds_conv (down_convs net ! 3) = Conv3d 8 16 3 1 1 True
     \<and> up_out_width (up_convs net ! 0) = 8
     \<and> up_out_width (up_convs net ! 2) = 2"
    using net by simp
  then show ?thesis using d by blast
qed

section \<open>Runs and their traces\<close>

lemma trace_ret [simp]: "trace (ret a) = []"
  and trace_raise [simp]: "trace (raise e) = []"
  and trace_logged [simp]: "trace (logged ev) = [ev]"
  and trace_lift [simp]: "trace (lift r) = []"
  by (simp_all add: trace_def ret_def raise_def logged_def lift_def)

lemma outcome_ret [simp]: "outcome (ret a) = Inr a"
  and outcome_raise [simp]: "outcome (raise e) = Inl e"
  and outcome_logged [simp]: "outcome (logged ev) = Inr ()"
  and outcome_lift [simp]: "outcome (lift r) = r"
  by (simp_all add: outcome_def ret_def raise_def logged_def lift_def)

lemma trace_and_then:
  "trace (and_then m f) = trace m @ (case outcome m of Inl e \<Rightarrow> [] | Inr a \<Rightarrow> trace (f a))"
  by (cases m) (auto simp: trace_def outcome_def and_then_def split: sum.splits prod.splits)

lemma outcome_and_then:
  "outcome (and_then m f) = (case outcome m of Inl e \<Rightarrow> Inl e | Inr a \<Rightarrow> outcome (f a))"
  by (cases m) (auto simp: trace_def outcome_def and_then_def split: sum.splits prod.splits)

lemma called_paths_simps [simp]:
  "called_paths [] = []"
  "called_paths (ev # tr) = called ev @ called_paths tr"
  "called_paths (tr @ tr') = called_paths tr @ called_paths tr'"
  by (simp_all add: called_paths_def)

lemma resamplings_simps [simp]:
  "resamplings [] = []"
  "resamplings (ev # tr) = resampled ev @ resamplings tr"
  "resamplings (tr @ tr') = resamplings tr @ resamplings tr'"
  by (simp_all add: resamplings_def)

text \<open>Every event of a run satisfies \<open>P\<close>.\<close>

lemma events_and_then:
  assumes "\<forall>ev \<in> set (trace m). P ev"
    and "\<And>a. outcome m = Inr a \<Longrightarrow> \<forall>ev \<in> set (trace (f a)). P ev"
  shows "\<forall>ev \<in> set (trace (and_then m f)). P ev"
  using assms by (cases "outcome m") (auto simp: trace_and_then)

lemma paths_and_then:
  assumes "\<forall>q \<in> set (called_paths (trace m)). P q"
    and "\<And>a. outcome m = Inr a \<Longrightarrow> \<forall>q \<in> set (called_paths (trace (f a))). P q"
  shows "\<forall>q \<in> set (called_paths (trace (and_then m f))). P q"
  using assms by (cases "outcome m") (auto simp: trace_and_then)

lemma call_layer_leaf:
  "is_leaf l \<Longrightarrow> call_layer p l x =
     and_then (logged (Call p [x])) (\<lambda>_.
     and_then (lift (layer_shape l (tshape x))) (\<lambda>sh.
       ret \<lparr>tshape = sh, grad_fn = LayerOut p (grad_fn x)\<rparr>))"
  by (cases l) simp_all

declare call_layer.simps [simp del]

lemma call_layer_leaf_trace: "is_leaf l \<Longrightarrow> trace (call_layer p l x) = [Call p [x]]"
  by (cases "layer_shape l (tshape x)") (simp_all add: call_layer_leaf trace_and_then outcome_and_then)

lemma call_layer_leaf_outcome:
  "is_leaf l \<Longrightarrow> outcome (call_layer p l x) =
     (case layer_shape l (tshape x) of
        Inl e \<Rightarrow> Inl e
      | Inr sh \<Rightarrow> Inr \<lparr>tshape = sh, grad_fn = LayerOut p (grad_fn x)\<rparr>)"
  by (cases "layer_shape l (tshape x)") (simp_all add: call_layer_leaf outcome_and_then)

lemma call_layer_paths:
  "\<forall>q \<in> set (called_paths (trace (call_layer p l x))). \<exists>r. q = p @ r"
  "\<forall>q \<in> set (called_paths (trace (call_children p i ls x))). \<exists>r. q = p @ r"
proof (induction p l x and p i ls x rule: call_layer_call_children.induct)
  case (1 p ls x)
  show ?case
    unfolding call_layer.simps
    by (rule paths_and_then) (use 1 in simp_all)
next
  case (3 p i x)
  show ?case by simp
next
  case (4 p i l ls x)
  show ?case
    unfolding call_children.simps
  proof (rule paths_and_then)
    show "\<forall>q\<in>set (called_paths (trace (call_layer (p @ [Idx i]) l x))). \<exists>r. q = p @ r"
      using 4(1) by auto
  next
    fix a assume "outcome (call_layer (p @ [Idx i]) l x) = Inr a"
    show "\<forall>q\<in>set (called_paths (trace (call_children p (Suc i) ls a))). \<exists>r. q = p @ r"
      using 4(2) by simp
  qed
qed (simp_all add: call_layer_leaf_trace)

text \<open>What the upsampling operator of \<open>upconv2x2\<close> gives when it succeeds.\<close>

lemma upconv2x2_outcome:
  assumes "outcome (call_layer q (upconv2x2 cin cout mode) x) = Inr y"
  shows "\<exists>n d h w. tshape x = [n, cin, d, h, w] \<and> tshape y = [n, cout, 2 * d, 2 * h, 2 * w]"
proof (cases "mode = ''transpose''")
  case True
  with assms show ?thesis
    by (auto simp: upconv2x2_def call_layer_leaf_outcome split: sum.splits list.splits if_splits)
next
  case False
  with assms show ?thesis
    by (auto simp: upconv2x2_def conv1x1_def call_layer.simps(1) outcome_and_then
                   call_layer_leaf_outcome window_out_def
             split: sum.splits list.splits if_splits)
qed

section \<open>The plain decoder stage\<close>

lemma upconv2x2_succeeds:
  assumes "tshape x = [n, cin, d, h, w]" "0 < d" "0 < h" "0 < w"
  shows "\<exists>y. outcome (call_layer q (upconv2x2 cin cout mode) x) = Inr y"
proof (cases "mode = ''transpose''")
  case True
  with assms show ?thesis
    by (simp add: upconv2x2_def call_layer_leaf_outcome)
next
  case False
  with assms show ?thesis
    by (simp add: upconv2x2_def conv1x1_def call_layer.simps(1) outcome_and_then
                  call_layer_leaf_outcome)
qed

lemma conv_path_not_under_upconv: "p @ [Attr ''conv''] \<noteq> (p @ [Attr ''upconv'']) @ r"
  by simp

text \<open>
  Claim C2. \<^verbatim>\<open>UsBlock.forward\<close> applies the upsampling operator and then the 3x3x3
  convolution, which was declared with input width \<open>in_channels + out_channels\<close>. The
  argument \<open>before_pool\<close> is not used: the result is the same for any two skip tensors.
  Whenever the convolution is called, the tensor it receives has \<open>out_channels\<close> channels,
  so for \<open>in_channels > 0\<close> the declared width is never met and no invocation of the block
  returns; on an input the upsampling accepts, the pass ends at the convolution with the
  channel mismatch of \<open>in_channels + out_channels\<close> against \<open>out_channels\<close>.
\<close>

theorem UsBlock_declared_width_unmet:
  "in_width (us_conv (UsBlock_init cin cout mode)) = cin + cout
   \<and> UsBlock_forward p (UsBlock_init cin cout mode) before_pool x
       = UsBlock_forward p (UsBlock_init cin cout mode) before_pool' x
   \<and> (\<forall>t. Call (p @ [Attr ''conv'']) [t]
              \<in> set (trace (UsBlock_forward p (UsBlock_init cin cout mode) before_pool x))
          \<longrightarrow> (\<exists>n sp. tshape t = n # cout # sp))
   \<and> (0 < cin \<longrightarrow>
         (\<exists>e. outcome (UsBlock_forward p (UsBlock_init cin cout mode) before_pool x) = Inl e))
   \<and> (0 < cin \<and> tshape x = [n, cin, d, h, w] \<and> 0 < d \<and> 0 < h \<and> 0 < w \<longrightarrow>
         (\<exists>t. tshape t = [n, cout, 2 * d, 2 * h, 2 * w]
            \<and> last (trace (UsBlock_forward p (UsBlock_init cin cout mode) before_pool x))
                = Call (p @ [Attr ''conv'']) [t])
         \<and> outcome (UsBlock_forward p (UsBlock_init cin cout mode) before_pool x)
             = Inl (ChannelMismatch (cin + cout) cout))"
proof -
  let ?blk = "UsBlock_init cin cout mode"
  let ?m1 = "call_layer (p @ [Attr ''upconv'']) (upconv2x2 cin cout mode) x"
  have width: "in_width (us_conv ?blk) = cin + cout"
    by (simp add: UsBlock_init_def conv3x3_def)
  have indep: "UsBlock_forward p ?blk before_pool x = UsBlock_forward p ?blk before_pool' x"
    by (simp add: UsBlock_forward_def)
  have up_paths: "\<forall>q \<in> set (called_paths (trace ?m1)). \<exists>r. q = (p @ [Attr ''upconv'']) @ r"
    by (rule call_layer_paths)
  have no_conv_in_up: "Call (p @ [Attr ''conv'']) [t] \<notin> set (trace ?m1)" for t
  proof
    assume "Call (p @ [Attr ''conv'']) [t] \<in> set (trace ?m1)"
    then have "p @ [Attr ''conv''] \<in> set (called_paths (trace ?m1))"
      by (auto simp: called_paths_def intro!: bexI [of _ "Call (p @ [Attr ''conv'']) [t]"])
    with up_paths show False by auto
  qed
  have failed: "trace (UsBlock_forward p ?blk before_pool x) = trace ?m1
      \<and> outcome (UsBlock_forward p ?blk before_pool x) = Inl e"
    if "outcome ?m1 = Inl e" for e
    using that by (simp add: UsBlock_forward_def UsBlock_init_def trace_and_then outcome_and_then)
  have passed: "tshape y = [n', cout, 2 * d', 2 * h', 2 * w']
      \<and> trace (UsBlock_forward p ?blk before_pool x)
          = trace ?m1 @ Call (p @ [Attr ''conv'']) [y] #
              (if cin = 0 then
                 (case outcome (call_layer (p @ [Attr ''conv'']) (us_conv ?blk) y) of
                    Inl e \<Rightarrow> [] | Inr z \<Rightarrow> [Call (p @ [Attr ''relu'']) [z]])
               else [])
      \<and> (0 < cin \<longrightarrow> outcome (UsBlock_forward p ?blk before_pool x)
                         = Inl (ChannelMismatch (cin + cout) cout))"
    if "outcome ?m1 = Inr y" "tshape x = [n', cin, d', h', w']"
       "tshape y = [n', cout, 2 * d', 2 * h', 2 * w']" for y n' d' h' w'
    using that
    by (auto simp: UsBlock_forward_def UsBlock_init_def conv3x3_def trace_and_then outcome_and_then
                   call_layer_leaf_trace call_layer_leaf_outcome split: sum.splits)
  have arg: "\<exists>n sp. tshape t = n # cout # sp"
    if "Call (p @ [Attr ''conv'']) [t] \<in> set (trace (UsBlock_forward p ?blk before_pool x))" for t
  proof (cases "outcome ?m1")
    case (Inl e)
    with failed that no_conv_in_up show ?thesis by simp
  next
    case (Inr y)
    from upconv2x2_outcome [OF Inr] obtain n' d' h' w' where
      sh: "tshape x = [n', cin, d', h', w']" "tshape y = [n', cout, 2 * d', 2 * h', 2 * w']"
      by blast
    have tr: "trace (UsBlock_forward p ?blk before_pool x)
          = trace ?m1 @ Call (p @ [Attr ''conv'']) [y] #
              (if cin = 0 then
                 (case outcome (call_layer (p @ [Attr ''conv'']) (us_conv ?blk) y) of
                    Inl e \<Rightarrow> [] | Inr z \<Rightarrow> [Call (p @ [Attr ''relu'']) [z]])
               else [])"
      by (rule conjunct1 [OF conjunct2 [OF passed [OF Inr sh]]])
    let ?rest = "if cin = 0 then
                 (case outcome (call_layer (p @ [Attr ''conv'']) (us_conv ?blk) y) of
                    Inl e \<Rightarrow> [] | Inr z \<Rightarrow> [Call (p @ [Attr ''relu'']) [z]])
               else []"
    have rest: "Call (p @ [Attr ''conv'']) [t] \<notin> set ?rest"
    proof (cases "cin = 0")
      case True
      then show ?thesis
        by (cases "outcome (call_layer (p @ [Attr ''conv'']) (us_conv ?blk) y)") simp_all
    next
      case False
      then show ?thesis by simp
    qed
    from that have "Call (p @ [Attr ''conv'']) [t]
        \<in> set (trace ?m1) \<union> {Call (p @ [Attr ''conv'']) [y]} \<union> set ?rest"
      by (simp only: tr set_append list.set) blast
    with no_conv_in_up [of t] rest have "t = y" by blast
    with sh show ?thesis by simp
  qed
  have raises: "\<exists>e. outcome (UsBlock_forward p ?blk before_pool x) = Inl e" if "0 < cin"
  proof (cases "outcome ?m1")
    case (Inl e)
    with failed show ?thesis by blast
  next
    case (Inr y)
    from upconv2x2_outcome [OF Inr] obtain n' d' h' w' where
      sh: "tshape x = [n', cin, d', h', w']" "tshape y = [n', cout, 2 * d', 2 * h', 2 * w']"
      by blast
    from conjunct2 [OF conjunct2 [OF passed [OF Inr sh]]] that show ?thesis by simp
  qed
  have exact: "(\<exists>t. tshape t = [n, cout, 2 * d, 2 * h, 2 * w]
            \<and> last (trace (UsBlock_forward p ?blk before_pool x)) = Call (p @ [Attr ''conv'']) [t])
         \<and> outcome (UsBlock_forward p ?blk before_pool x) = Inl (ChannelMismatch (cin + cout) cout)"
    if "0 < cin" "tshape x = [n, cin, d, h, w]" "0 < d" "0 < h" "0 < w"
  proof -
    from upconv2x2_succeeds [OF that(2-5)] obtain y where y: "outcome ?m1 = Inr y" by blast
    from upconv2x2_outcome [OF y] that(2) have sh: "tshape y = [n, cout, 2 * d, 2 * h, 2 * w]"
      by simp
    from passed [OF y that(2) sh] that(1) sh show ?thesis by auto
  qed
  show ?thesis
  proof (intro conjI allI impI)
    show "in_width (us_conv ?blk) = cin + cout" by (rule width)
    show "UsBlock_forward p ?blk before_pool x = UsBlock_forward p ?blk before_pool' x"
      by (rule indep)
  next
    fix t assume "Call (p @ [Attr ''conv'']) [t]
              \<in> set (trace (UsBlock_forward p ?blk before_pool x))"
    then show "\<exists>n sp. tshape t = n # cout # sp" by (rule arg)
  next
    assume "0 < cin"
    then show "\<exists>e. outcome (UsBlock_forward p ?blk before_pool x) = Inl e" by (rule raises)
  next
    assume a: "0 < cin \<and> tshape x = [n, cin, d, h, w] \<and> 0 < d \<and> 0 < h \<and> 0 < w"
    then show "\<exists>t. tshape t = [n, cout, 2 * d, 2 * h, 2 * w]
            \<and> last (trace (UsBlock_forward p ?blk before_pool x)) = Call (p @ [Attr ''conv'']) [t]"
      using exact by simp
    from a show "outcome (UsBlock_forward p ?blk before_pool x)
             = Inl (ChannelMismatch (cin + cout) cout)"
      using exact by simp
  qed
qed

theorem UsBlock_declared_width_unmet_witness:
  "(0::nat) < 16
   \<and> tshape \<lparr>tshape = [2, 16, 18, 18, 1], grad_fn = Input\<rparr> = [2, 16, 18, 18, 1]
   \<and> (\<exists>t. tshape t = [2, 8, 36, 36, 2]
          \<and> last (trace (UsBlock_forward [Attr ''up_convs'', Idx 0]
                          (UsBlock_init 16 8 ''trilinear'')
                          \<lparr>tshape = [2, 8, 18, 18, 1], grad_fn = Input\<rparr>
                          \<lparr>tshape = [2, 16, 18, 18, 1], grad_fn = Input\<rparr>))
              = Call ([Attr ''up_convs'', Idx 0] @ [Attr ''conv'']) [t])
   \<and> outcome (UsBlock_forward [Attr ''up_convs'', Idx 0]
                 (UsBlock_init 16 8 ''trilinear'')
                 \<lparr>tshape = [2, 8, 18, 18, 1], grad_fn = Input\<rparr>
                 \<lparr>tshape = [2, 16, 18, 18, 1], grad_fn = Input\<rparr>)
       = Inl (ChannelMismatch 24 8)"
  using UsBlock_declared_width_unmet
          [of 16 8 "''trilinear''" "[Attr ''up_convs'', Idx 0]"
              "\<lparr>tshape = [2, 8, 18, 18, 1], grad_fn = Input\<rparr>"
              "\<lparr>tshape = [2, 16, 18, 18, 1], grad_fn = Input\<rparr>"
              "\<lparr>tshape = [2, 8, 18, 18, 1], grad_fn = Input\<rparr>" 2 18 18 1]
  by simp

section \<open>The modules a pass calls\<close>

lemma Call_in_paths: "Call q ts \<in> set tr \<Longrightarrow> q \<in> set (called_paths tr)"
  by (induction tr) auto

lemma interpolate_paths [simp]: "called_paths (trace (interpolate t sz)) = []"
  by (simp add: interpolate_def trace_and_then split: list.splits)

lemma cat_paths [simp]: "called_paths (trace (cat a b)) = []"
  by (simp add: cat_def trace_and_then split: list.splits prod.splits)

lemma DsBlock_forward_paths:
  "\<forall>q \<in> set (called_paths (trace (DsBlock_forward p blk x))). \<exists>a r. q = p @ a # r"
  unfolding DsBlock_forward_def Let_def
proof (intro paths_and_then)
  show "\<forall>q\<in>set (called_paths (trace (call_layer (p @ [Attr ''conv'']) (ds_conv blk) x))).
          \<exists>a r. q = p @ a # r"
    using call_layer_paths(1) [of "p @ [Attr ''conv'']"] by fastforce
next
  fix out
  show "\<forall>q\<in>set (called_paths (trace (call_layer (p @ [Attr ''relu'']) (ds_relu blk) out))).
          \<exists>a r. q = p @ a # r"
    using call_layer_paths(1) [of "p @ [Attr ''relu'']"] by fastforce
next
  fix out
  show "\<forall>q\<in>set (called_paths (trace (if pooling blk
               then (case mp blk of
                       Some m \<Rightarrow> call_layer (p @ [Attr ''mp'']) m out
                     | None \<Rightarrow> raise AttributeError)
               else ret out))). \<exists>a r. q = p @ a # r"
    using call_layer_paths(1) [of "p @ [Attr ''mp'']"]
    by (cases "pooling blk"; cases "mp blk") fastforce+
next
  fix a b :: tensor
  show "\<forall>q\<in>set (called_paths (trace (ret (a, b)))). \<exists>a r. q = p @ a # r"
    by simp
qed

lemma DsBlock_call_trace:
  "\<exists>tr. trace (DsBlock_call p blk x) = Call p [x] # tr
        \<and> (\<forall>q \<in> set (called_paths tr). \<exists>a r. q = p @ a # r)"
  using DsBlock_forward_paths [of p blk x]
  by (simp add: DsBlock_call_def trace_and_then)

lemma layer_under:
  "\<forall>q\<in>set (called_paths (trace (call_layer (p @ [a]) l x))). \<exists>a r. q = p @ a # r"
  using call_layer_paths(1) [of "p @ [a]" l x] by fastforce

lemma UsBlock_forward_paths:
  "\<forall>q \<in> set (called_paths (trace (UsBlock_forward p blk before_pool x))). \<exists>a r. q = p @ a # r"
  unfolding UsBlock_forward_def
  by (intro paths_and_then layer_under) simp

lemma UsBlockRes_forward_paths:
  "\<forall>q \<in> set (called_paths (trace (UsBlockRes_forward p blk before_pool x))). \<exists>a r. q = p @ a # r"
  unfolding UsBlockRes_forward_def Let_def
proof (intro paths_and_then layer_under)
  fix y
  show "\<forall>q\<in>set (called_paths (trace (if drop 2 (tshape before_pool) \<noteq> drop 2 (tshape y)
                then interpolate before_pool (drop 2 (tshape y)) else ret before_pool))).
          \<exists>a r. q = p @ a # r"
    by simp
next
  fix y b
  show "\<forall>q\<in>set (called_paths (trace (cat y b))). \<exists>a r. q = p @ a # r" by simp
next
  fix y :: tensor
  show "\<forall>q\<in>set (called_paths (trace (ret y))). \<exists>a r. q = p @ a # r" by simp
qed

lemma up_call_trace:
  "\<exists>tr. trace (up_call p m before_pool x) = Call p [before_pool, x] # tr
        \<and> (\<forall>q \<in> set (called_paths tr). \<exists>a r. q = p @ a # r)"
  using UsBlock_forward_paths [of p _ before_pool x] UsBlockRes_forward_paths [of p _ before_pool x]
  by (cases m) (simp_all add: up_call_def trace_and_then)

lemma DsBlock_call_paths:
  "\<forall>q \<in> set (called_paths (trace (DsBlock_call p blk x))). \<exists>r. q = p @ r"
proof -
  from DsBlock_call_trace [of p blk x] obtain tr where
    "trace (DsBlock_call p blk x) = Call p [x] # tr"
    "\<forall>q \<in> set (called_paths tr). \<exists>a r. q = p @ a # r" by blast
  then show ?thesis by auto
qed


lemma encoder_loop_paths:
  "\<forall>q \<in> set (called_paths (trace (encoder_loop n i ms st))). \<exists>r. q = Attr ''down_convs'' # r"
proof (induction ms arbitrary: i st)
  case Nil
  show ?case by simp
next
  case (Cons m ms)
  obtain x eo sk where st: "st = (x, eo, sk)" by (cases st)
  show ?case
    unfolding st encoder_loop.simps
  proof (rule paths_and_then)
    show "\<forall>q\<in>set (called_paths (trace (DsBlock_call [Attr ''down_convs'', Idx i] m x))).
            \<exists>r. q = Attr ''down_convs'' # r"
      using DsBlock_call_paths [of "[Attr ''down_convs'', Idx i]" m x] by auto
  next
    fix a :: "tensor \<times> tensor"
    show "\<forall>q\<in>set (called_paths (trace (case a of (x', before_pool) \<Rightarrow>
              encoder_loop n (Suc i) ms
                (x', eo @ [before_pool], if int i < int n - 1 then sk @ [x'] else sk)))).
            \<exists>r. q = Attr ''down_convs'' # r"
      using Cons.IH by (cases a) simp
  qed
qed



section \<open>The classifier layer\<close>

lemma outcome_and_then_Inr:
  "outcome (and_then m f) = Inr b \<longleftrightarrow> (\<exists>a. outcome m = Inr a \<and> outcome (f a) = Inr b)"
  by (cases "outcome m") (simp_all add: outcome_and_then)





section \<open>The skip tensors\<close>

lemma in_trace_and_then:
  "ev \<in> set (trace (and_then m f)) \<longleftrightarrow>
     ev \<in> set (trace m) \<or> (\<exists>a. outcome m = Inr a \<and> ev \<in> set (trace (f a)))"
  by (cases "outcome m") (simp_all add: trace_and_then)

lemma py_index_from_end:
  assumes "py_index xs (- (int k + 1)) = Inr s"
  shows "k < length xs \<and> s = xs ! (length xs - 1 - k)"
proof -
  from assms have k: "k < length xs" and s: "s = xs ! nat (int (length xs) + (- (int k + 1)))"
    by (auto simp: py_index_def split: if_splits)
  from k have "nat (int (length xs) + (- (int k + 1))) = length xs - 1 - k" by simp
  with k s show ?thesis by simp
qed

lemma DsBlock_call_producer:
  assumes "leaf_stage blk" "outcome (DsBlock_call p blk x) = Inr (out, bp)"
  shows "\<exists>a g. grad_fn out = LayerOut (p @ [a]) g"
proof -
  from assms(2) obtain o1 o2 where
    r: "outcome (call_layer (p @ [Attr ''relu'']) (ds_relu blk) o1) = Inr o2"
    and m: "outcome (if pooling blk
               then (case mp blk of
                       Some m \<Rightarrow> call_layer (p @ [Attr ''mp'']) m o2
                     | None \<Rightarrow> raise AttributeError)
               else ret o2) = Inr out"
    by (auto simp: DsBlock_call_def DsBlock_forward_def outcome_and_then_Inr Let_def)
  from r assms(1) have o2: "grad_fn o2 = LayerOut (p @ [Attr ''relu'']) (grad_fn o1)"
    by (auto simp: leaf_stage_def call_layer_leaf_outcome split: sum.splits)
  show ?thesis
  proof (cases "pooling blk")
    case False
    with m o2 show ?thesis by auto
  next
    case True
    with m obtain l where l: "mp blk = Some l"
      "outcome (call_layer (p @ [Attr ''mp'']) l o2) = Inr out"
      by (cases "mp blk") auto
    with assms(1) have "grad_fn out = LayerOut (p @ [Attr ''mp'']) (grad_fn o2)"
      by (auto simp: leaf_stage_def call_layer_leaf_outcome split: sum.splits)
    then show ?thesis by blast
  qed
qed

lemma DsBlock_call_stage:
  assumes "leaf_stage blk" "outcome (DsBlock_call [Attr ''down_convs'', Idx i] blk x) = Inr (out, bp)"
  shows "producer out = [Attr ''down_convs'', Idx i]"
  using DsBlock_call_producer [OF assms] by (auto simp: producer_def)

lemma encoder_loop_skips:
  assumes "\<forall>blk \<in> set ms. leaf_stage blk"
    and "outcome (encoder_loop n i ms (x, eo, sk)) = Inr (x', eo', sk')"
    and "i + length ms = n"
  shows "\<exists>sk''. sk' = sk @ sk'' \<and> length sk'' = length ms - 1
           \<and> (\<forall>j < length ms - 1. producer (sk'' ! j) = [Attr ''down_convs'', Idx (i + j)])
           \<and> (ms \<noteq> [] \<longrightarrow> producer x' = [Attr ''down_convs'', Idx (n - 1)])"
  using assms
proof (induction ms arbitrary: i x eo sk)
  case Nil
  then show ?case by simp
next
  case (Cons m ms)
  from Cons.prems(2) obtain x1 bp where
    d: "outcome (DsBlock_call [Attr ''down_convs'', Idx i] m x) = Inr (x1, bp)"
    and r: "outcome (encoder_loop n (Suc i) ms
              (x1, eo @ [bp], if int i < int n - 1 then sk @ [x1] else sk)) = Inr (x', eo', sk')"
    by (auto simp: outcome_and_then_Inr)
  from Cons.prems(1) have lm: "leaf_stage m" and lms: "\<forall>blk \<in> set ms. leaf_stage blk"
    by simp_all
  have x1: "producer x1 = [Attr ''down_convs'', Idx i]"
    using DsBlock_call_stage [OF lm d] .
  from Cons.prems(3) have n: "Suc i + length ms = n" by simp
  show ?case
  proof (cases ms)
    case Nil
    with n have "\<not> int i < int n - 1" "n - 1 = i" by auto
    with r Nil x1 show ?thesis by simp
  next
    case (Cons m' ms')
    with n have lt: "int i < int n - 1" by auto
    with r have r': "outcome (encoder_loop n (Suc i) ms (x1, eo @ [bp], sk @ [x1]))
                       = Inr (x', eo', sk')"
      by simp
    from Cons.IH [OF lms r' n] obtain sk2 where
      sk2: "sk' = (sk @ [x1]) @ sk2" "length sk2 = length ms - 1"
      "\<forall>j < length ms - 1. producer (sk2 ! j) = [Attr ''down_convs'', Idx (Suc i + j)]"
      "ms \<noteq> [] \<longrightarrow> producer x' = [Attr ''down_convs'', Idx (n - 1)]"
      by blast
    have "sk' = sk @ (x1 # sk2)" using sk2(1) by simp
    moreover have "length (x1 # sk2) = length (m # ms) - 1"
      using sk2(2) Cons by simp
    moreover have "\<forall>j < length (m # ms) - 1.
        producer ((x1 # sk2) ! j) = [Attr ''down_convs'', Idx (i + j)]"
    proof (intro allI impI)
      fix j assume j: "j < length (m # ms) - 1"
      show "producer ((x1 # sk2) ! j) = [Attr ''down_convs'', Idx (i + j)]"
      proof (cases j)
        case 0
        with x1 show ?thesis by simp
      next
        case (Suc j')
        with j have "j' < length ms - 1" by simp
        with sk2(3) Suc show ?thesis by simp
      qed
    qed
    moreover have "producer x' = [Attr ''down_convs'', Idx (n - 1)]"
      using sk2(4) Cons by simp
    ultimately show ?thesis by blast
  qed
qed

lemma decoder_loop_up_calls:
  assumes "Call [Attr ''up_convs'', Idx k] [s, xx]
             \<in> set (trace (decoder_loop cv sk eo i ms x))"
  shows "i \<le> k \<and> k < i + length ms \<and> py_index sk (- (int k + 1)) = Inr s
           \<and> (k = i \<longrightarrow> xx = x)"
  using assms
proof (induction ms arbitrary: i x)
  case Nil
  then show ?case by simp
next
  case (Cons m ms)
  let ?ev = "Call [Attr ''up_convs'', Idx k] [s, xx]"
  let ?p = "[Attr ''up_convs'', Idx i]"
  from Cons.prems have "\<exists>s0. py_index sk (- (int i + 1)) = Inr s0 \<and>
      (?ev \<in> set (trace (up_call ?p m s0 x)) \<or>
       (\<exists>x1 bp xc. ?ev \<in> set (trace (if drop 2 (tshape bp) \<noteq> drop 2 (tshape x1)
                                        then interpolate bp (drop 2 (tshape x1)) else ret bp))
           \<or> ?ev \<in> set (trace (cat x1 bp))
           \<or> ?ev \<in> set (trace (call_layer [Attr ''conv''] cv xc)))
       \<or> (\<exists>x2. ?ev \<in> set (trace (decoder_loop cv sk eo (Suc i) ms x2))))"
    unfolding decoder_loop.simps Let_def in_trace_and_then outcome_lift trace_lift
    by fastforce
  then obtain s0 where s0: "py_index sk (- (int i + 1)) = Inr s0"
    and ev: "?ev \<in> set (trace (up_call ?p m s0 x)) \<or>
       (\<exists>x1 bp xc. ?ev \<in> set (trace (if drop 2 (tshape bp) \<noteq> drop 2 (tshape x1)
                                        then interpolate bp (drop 2 (tshape x1)) else ret bp))
           \<or> ?ev \<in> set (trace (cat x1 bp))
           \<or> ?ev \<in> set (trace (call_layer [Attr ''conv''] cv xc)))
       \<or> (\<exists>x2. ?ev \<in> set (trace (decoder_loop cv sk eo (Suc i) ms x2)))"
    by blast
  from ev consider
      (head) "?ev \<in> set (trace (up_call ?p m s0 x))"
    | (fuse) x1 bp xc where "?ev \<in> set (trace (if drop 2 (tshape bp) \<noteq> drop 2 (tshape x1)
                                        then interpolate bp (drop 2 (tshape x1)) else ret bp))
           \<or> ?ev \<in> set (trace (cat x1 bp))
           \<or> ?ev \<in> set (trace (call_layer [Attr ''conv''] cv xc))"
    | (rest) x2 where "?ev \<in> set (trace (decoder_loop cv sk eo (Suc i) ms x2))"
    by blast
  then show ?case
  proof cases
    case head
    from up_call_trace [of ?p m s0 x] obtain tr where
      tr: "trace (up_call ?p m s0 x) = Call ?p [s0, x] # tr"
      "\<forall>q \<in> set (called_paths tr). \<exists>a r. q = ?p @ a # r" by blast
    from head tr(1) have "?ev = Call ?p [s0, x] \<or> ?ev \<in> set tr" by simp
    moreover have "?ev \<notin> set tr"
    proof
      assume "?ev \<in> set tr"
      then have "[Attr ''up_convs'', Idx k] \<in> set (called_paths tr)" by (rule Call_in_paths)
      with tr(2) show False by auto
    qed
    ultimately have "?ev = Call ?p [s0, x]" by simp
    with s0 show ?thesis by simp
  next
    case fuse
    then have "[Attr ''up_convs'', Idx k] \<in> set (called_paths (trace
                 (if drop 2 (tshape bp) \<noteq> drop 2 (tshape x1)
                  then interpolate bp (drop 2 (tshape x1)) else ret bp)))
        \<or> [Attr ''up_convs'', Idx k] \<in> set (called_paths (trace (cat x1 bp)))
        \<or> [Attr ''up_convs'', Idx k]
              \<in> set (called_paths (trace (call_layer [Attr ''conv''] cv xc)))"
      using Call_in_paths by blast
    moreover have "[Attr ''up_convs'', Idx k]
              \<notin> set (called_paths (trace (call_layer [Attr ''conv''] cv xc)))"
      using call_layer_paths(1) [of "[Attr ''conv'']" cv xc] by auto
    ultimately show ?thesis by (simp split: if_splits)
  next
    case rest
    from Cons.IH [OF rest] show ?thesis by auto
  qed
qed

lemma encoder_loop_from_start:
  assumes "\<forall>blk \<in> set ms. leaf_stage blk"
    and "outcome (encoder_loop (length ms) 0 ms (x1, [], [])) = Inr (xb, eo, sk)"
  shows "length sk = length ms - 1"
    and "\<forall>j < length ms - 1. producer (sk ! j) = [Attr ''down_convs'', Idx j]"
    and "ms \<noteq> [] \<longrightarrow> producer xb = [Attr ''down_convs'', Idx (length ms - 1)]"
  using encoder_loop_skips [OF assms(1) assms(2)] by auto

text \<open>
  Claim C5, as amended. Stages are counted from 0, as the loops of \<^verbatim>\<open>ELUNet.forward\<close>
  count them. With \<open>D\<close> encoder stages, the encoder loop retains exactly \<open>D - 1\<close> skip
  tensors: the tensor forwarded by stage \<open>j\<close> for each \<open>j < D - 1\<close>, in this order. The
  tensor forwarded by the last stage \<open>D - 1\<close> is not in the list; it is the tensor the first
  decoder stage starts from. Whenever decoder stage \<open>i\<close> is called, the skip tensor it is
  given is the one produced by encoder stage \<open>D - 2 - i\<close>, so that skips are consumed in the
  reverse order of their production and the last one produced feeds the first decoder
  stage. A pass that returns, returns \<open>D - 1\<close> skip tensors.
\<close>

theorem skips_consumed_in_reverse:
  assumes wf: "\<forall>blk \<in> set (down_convs net). leaf_stage blk"
  shows
   "(outcome (encoder_loop (length (down_convs net)) 0 (down_convs net) (x1, [], []))
       = Inr (xb, eo, sk)
     \<longrightarrow> length sk = length (down_convs net) - 1
         \<and> (\<forall>j < length (down_convs net) - 1. producer (sk ! j) = [Attr ''down_convs'', Idx j])
         \<and> (down_convs net \<noteq> [] \<longrightarrow>
               producer xb = [Attr ''down_convs'', Idx (length (down_convs net) - 1)]
               \<and> xb \<notin> set sk))
    \<and> (Call [Attr ''up_convs'', Idx i] [s, xx] \<in> set (trace (ELUNet_forward net x))
     \<longrightarrow> i + 2 \<le> length (down_convs net)
         \<and> producer s = [Attr ''down_convs'', Idx (length (down_convs net) - 2 - i)]
         \<and> (i = 0 \<longrightarrow> producer xx = [Attr ''down_convs'', Idx (length (down_convs net) - 1)]))
    \<and> (outcome (ELUNet_forward net x) = Inr (y, skips)
     \<longrightarrow> length skips = length (down_convs net) - 1)"
proof (intro conjI impI)
  let ?D = "length (down_convs net)"
  {
    assume e: "outcome (encoder_loop ?D 0 (down_convs net) (x1, [], [])) = Inr (xb, eo, sk)"
    note f = encoder_loop_from_start [OF wf e]
    show "length sk = ?D - 1" by (rule f(1))
    show "\<forall>j < ?D - 1. producer (sk ! j) = [Attr ''down_convs'', Idx j]" by (rule f(2))
    {
      assume ne: "down_convs net \<noteq> []"
      with f(3) show p: "producer xb = [Attr ''down_convs'', Idx (?D - 1)]" by simp
      show "xb \<notin> set sk"
      proof
        assume "xb \<in> set sk"
        then obtain j where j: "j < length sk" "sk ! j = xb" by (auto simp: in_set_conv_nth)
        with f(1) f(2) have "producer xb = [Attr ''down_convs'', Idx j]" by auto
        with p j(1) f(1) show False by simp
      qed
    }
  }
  {
    assume ev: "Call [Attr ''up_convs'', Idx i] [s, xx] \<in> set (trace (ELUNet_forward net x))"
    let ?ev = "Call [Attr ''up_convs'', Idx i] [s, xx]"
    have not_start: "?ev \<notin> set (trace (call_layer [Attr ''conv_start''] (conv_start net) x))"
    proof
      assume "?ev \<in> set (trace (call_layer [Attr ''conv_start''] (conv_start net) x))"
      then have "[Attr ''up_convs'', Idx i]
          \<in> set (called_paths (trace (call_layer [Attr ''conv_start''] (conv_start net) x)))"
        by (rule Call_in_paths)
      with call_layer_paths(1) [of "[Attr ''conv_start'']" "conv_start net" x]
      show False by auto
    qed
    have not_enc: "?ev \<notin> set (trace (encoder_loop ?D 0 (down_convs net) (x0, [], [])))" for x0
    proof
      assume "?ev \<in> set (trace (encoder_loop ?D 0 (down_convs net) (x0, [], [])))"
      then have "[Attr ''up_convs'', Idx i]
          \<in> set (called_paths (trace (encoder_loop ?D 0 (down_convs net) (x0, [], []))))"
        by (rule Call_in_paths)
      with encoder_loop_paths [of ?D 0 "down_convs net" "(x0, [], [])"]
      show False by auto
    qed
    from ev have "\<exists>x0 xb eo sk.
        outcome (encoder_loop ?D 0 (down_convs net) (x0, [], [])) = Inr (xb, eo, sk)
        \<and> ?ev \<in> set (trace (decoder_loop (conv net) sk eo 0 (up_convs net) xb))"
      unfolding ELUNet_forward_def in_trace_and_then
      using not_start not_enc by (fastforce simp: in_trace_and_then)
    then obtain x0 xb eo sk where
      e: "outcome (encoder_loop ?D 0 (down_convs net) (x0, [], [])) = Inr (xb, eo, sk)"
      and d: "?ev \<in> set (trace (decoder_loop (conv net) sk eo 0 (up_convs net) xb))"
      by blast
    note f = encoder_loop_from_start [OF wf e]
    from decoder_loop_up_calls [OF d] have
      ix: "py_index sk (- (int i + 1)) = Inr s" and first: "i = 0 \<longrightarrow> xx = xb"
      by simp_all
    from py_index_from_end [OF ix] have i: "i < length sk" and s: "s = sk ! (length sk - 1 - i)"
      by simp_all
    from i f(1) show "i + 2 \<le> ?D" by simp
    from i f(1) have "length sk - 1 - i = ?D - 2 - i" "?D - 2 - i < ?D - 1" by simp_all
    with s f(2) show "producer s = [Attr ''down_convs'', Idx (?D - 2 - i)]" by simp
    {
      assume "i = 0"
      with first have "xx = xb" by simp
      moreover from i f(1) have "down_convs net \<noteq> []" by auto
      ultimately show "producer xx = [Attr ''down_convs'', Idx (?D - 1)]" using f(3) by simp
    }
  }
  {
    assume "outcome (ELUNet_forward net x) = Inr (y, skips)"
    then obtain x0 xb eo where
      "outcome (encoder_loop ?D 0 (down_convs net) (x0, [], [])) = Inr (xb, eo, skips)"
      by (auto simp: ELUNet_forward_def outcome_and_then_Inr)
    from encoder_loop_from_start(1) [OF wf this] show "length skips = ?D - 1" .
  }
qed

theorem skips_consumed_in_reverse_witness:
  "list_all leaf_stage (down_convs depth2_patched)
   \<and> outcome (encoder_loop (length (down_convs depth2_patched)) 0 (down_convs depth2_patched)
                 (started, [], []))
       = Inr (bottom, [pre_pool0, bottom], [skip0])
   \<and> length [skip0] = length (down_convs depth2_patched) - 1
   \<and> bottom \<notin> set [skip0]
   \<and> Call [Attr ''up_convs'', Idx 0] [skip0, bottom]
         \<in> set (trace (ELUNet_forward depth2_patched cube2))
   \<and> producer skip0 = [Attr ''down_convs'', Idx (length (down_convs depth2_patched) - 2 - 0)]
   \<and> producer bottom = [Attr ''down_convs'', Idx (length (down_convs depth2_patched) - 1)]
   \<and> (\<exists>y skips. outcome (ELUNet_forward depth2_patched cube2) = Inr (y, skips)
         \<and> length skips = length (down_convs depth2_patched) - 1)"
proof -
  have wf: "\<forall>blk \<in> set (down_convs depth2_patched). leaf_stage blk"
    by (simp add: depth2_patched_def depth2_plain_def leaf_stage_def)
  have ne: "down_convs depth2_patched \<noteq> []"
    by (simp add: depth2_patched_def depth2_plain_def)
  have enc: "outcome (encoder_loop (length (down_convs depth2_patched)) 0
                        (down_convs depth2_patched) (started, [], []))
               = Inr (bottom, [pre_pool0, bottom], [skip0])"
    by code_simp
  have ev: "Call [Attr ''up_convs'', Idx 0] [skip0, bottom]
              \<in> set (trace (ELUNet_forward depth2_patched cube2))"
    by code_simp
  have "returned_shapes (ELUNet_forward depth2_patched cube2)
          = Inr ([1, 2, 2, 2, 2], [[1, 2, 1, 1, 1]])"
    by code_simp
  then obtain y skips where o: "outcome (ELUNet_forward depth2_patched cube2) = Inr (y, skips)"
    by (auto simp: returned_shapes_def split: sum.splits)
  from skips_consumed_in_reverse
         [OF wf, of started bottom "[pre_pool0, bottom]" "[skip0]" 0 skip0 bottom cube2 y skips]
       enc ev o ne
  show ?thesis using wf by (simp only: list_all_iff) blast
qed

text \<open>
  Claim C5 as stated gives the index of the encoder stage as \<open>D - 1 - i\<close>. In the network
  the constructor builds for depth 2, decoder stage 0 is given the tensor produced by
  encoder stage 0, not by stage \<open>2 - 1 - 0 = 1\<close>, whose output is never a skip.
\<close>

theorem skip_index_counterexample:
  "ELUNet_init 4 1 2 1 ''transpose'' False = Inr depth2_plain
   \<and> length (down_convs depth2_plain) = 2
   \<and> Call [Attr ''up_convs'', Idx 0] [skip0, bottom]
         \<in> set (trace (ELUNet_forward depth2_plain cube2))
   \<and> producer skip0 = [Attr ''down_convs'', Idx 0]
   \<and> producer skip0 \<noteq> [Attr ''down_convs'', Idx (2 - 1 - 0)]"
  by code_simp

section \<open>The resampling fallback\<close>

text \<open>
  Claim C6 says that on an input whose spatial sizes are multiples of \<open>2^(D - 1)\<close> the
  skip tensor already has the spatial size of the upsampled tensor at every decoder
  iteration, so that the resampling is never triggered. The code does not reach that
  state. In the networks the constructor builds for depth 2, on the input \<open>cube2\<close>, decoder
  stage 0 is given the skip tensor of spatial size \<open>(1, 1, 1)\<close> and the encoder feature map
  kept for it has that size too, while the upsampled tensor has \<open>(2, 2, 2)\<close>; the pass
  raises a channel mismatch inside the stage (in its convolution for \<open>UsBlock\<close>, in its
  upsampling for \<open>UsBlockRes\<close>) before either size comparison is made, which is the only
  reason why no resampling is recorded. In the network with the two widths replaced the
  pass returns, and it resamples the encoder feature map on this same input.
\<close>

theorem depth2_pass_raises_before_resampling:
  "ELUNet_init 4 1 2 1 ''transpose'' False = Inr depth2_plain
   \<and> call_shapes (trace (ELUNet_forward depth2_plain cube2)) =
       [([Attr ''conv_start''], [[1, 1, 2, 2, 2]]),
        ([Attr ''down_convs'', Idx 0], [[1, 1, 2, 2, 2]]),
        ([Attr ''down_convs'', Idx 0, Attr ''conv''], [[1, 1, 2, 2, 2]]),
        ([Attr ''down_convs'', Idx 0, Attr ''relu''], [[1, 2, 2, 2, 2]]),
        ([Attr ''down_convs'', Idx 0, Attr ''mp''], [[1, 2, 2, 2, 2]]),
        ([Attr ''down_convs'', Idx 1], [[1, 2, 1, 1, 1]]),
        ([Attr ''down_convs'', Idx 1, Attr ''conv''], [[1, 2, 1, 1, 1]]),
        ([Attr ''down_convs'', Idx 1, Attr ''relu''], [[1, 4, 1, 1, 1]]),
        ([Attr ''up_convs'', Idx 0], [[1, 2, 1, 1, 1], [1, 4, 1, 1, 1]]),
        ([Attr ''up_convs'', Idx 0, Attr ''upconv''], [[1, 4, 1, 1, 1]]),
        ([Attr ''up_convs'', Idx 0, Attr ''conv''], [[1, 2, 2, 2, 2]])]
   \<and> resamplings (trace (ELUNet_forward depth2_plain cube2)) = []
   \<and> returned_shapes (ELUNet_forward depth2_plain cube2) = Inl (ChannelMismatch 6 2)
   \<and> drop 2 [1, 2, 1, 1, 1] \<noteq> drop 2 [1, 2, 2, 2, 2 :: nat]
   \<and> ELUNet_init 4 1 2 1 ''transpose'' True = Inr depth2_res
   \<and> call_shapes (trace (ELUNet_forward depth2_res cube2)) =
       [([Attr ''conv_start''], [[1, 1, 2, 2, 2]]),
        ([Attr ''down_convs'', Idx 0], [[1, 1, 2, 2, 2]]),
        ([Attr ''down_convs'', Idx 0, Attr ''conv''], [[1, 1, 2, 2, 2]]),
        ([Attr ''down_convs'', Idx 0, Attr ''relu''], [[1, 2, 2, 2, 2]]),
        ([Attr ''down_convs'', Idx 0, Attr ''mp''], [[1, 2, 2, 2, 2]]),
        ([Attr ''down_convs'', Idx 1], [[1, 2, 1, 1, 1]]),
        ([Attr ''down_convs'', Idx 1, Attr ''conv''], [[1, 2, 1, 1, 1]]),
        ([Attr ''down_convs'', Idx 1, Attr ''relu''], [[1, 4, 1, 1, 1]]),
        ([Attr ''up_convs'', Idx 0], [[1, 2, 1, 1, 1], [1, 4, 1, 1, 1]]),
        ([Attr ''up_convs'', Idx 0, Attr ''upconv''], [[1, 4, 1, 1, 1]])]
   \<and> resamplings (trace (ELUNet_forward depth2_res cube2)) = []
   \<and> returned_shapes (ELUNet_forward depth2_res cube2) = Inl (ChannelMismatch 6 4)
   \<and> map tshape (resamplings (trace (ELUNet_forward depth2_patched cube2))) = [[1, 4, 1, 1, 1]]"
  by code_simp

section \<open>The crop functions\<close>

lemma slice_bound_simps:
  "0 \<le> i \<Longrightarrow> slice_bound n i = min n (nat i)"
  "i < 0 \<Longrightarrow> slice_bound n i = nat (max 0 (int n + i))"
  by (simp_all add: slice_bound_def)

lemma centre_window:
  assumes "144 \<le> n"
  shows "slice_bound n (int (n div 2) - 144 div 2) = n div 2 - 72"
    and "slice_bound n (int (n div 2) + 144 div 2) = n div 2 + 72"
    and "n div 2 + 72 - (n div 2 - 72) = 144"
  using assms by (auto simp: slice_bound_def)

lemma shape_slice_axis:
  "shape (slice_axis k start stop a) =
     (shape a)[k := slice_bound (shape a ! k) stop - slice_bound (shape a ! k) start]"
  by (simp add: slice_axis_def Let_def)

lemma item_slice_axis:
  "item (slice_axis k start stop a) idx =
     item a (idx[k := idx ! k + slice_bound (shape a ! k) start])"
  by (simp add: slice_axis_def Let_def)

lemma centre_window72:
  assumes "144 \<le> n"
  shows "slice_bound n (int (n div 2) - 72) = n div 2 - 72"
    and "slice_bound n (int (n div 2) + 72) = n div 2 + 72"
    and "n div 2 + 72 - (n div 2 - 72) = 144"
  using assms by (auto simp: slice_bound_def)

lemma depth_window:
  "slice_bound 8 (int (8 div 2) - 8 div 2) = 0"
  "slice_bound 8 (int (8 div 2) + 8 div 2) = 8"
  by (simp_all add: slice_bound_def)

lemma slice_axis_whole:
  assumes "k < length (shape a)" "slice_bound (shape a ! k) start = 0"
    "slice_bound (shape a ! k) stop = shape a ! k"
  shows "slice_axis k start stop a = a"
  using assms by (simp add: slice_axis_def)

text \<open>
  Claim C7. \<^verbatim>\<open>crop_img\<close> applied to a four-dimensional volume of depth 8 and spatial size
  144 by 144 returns that volume, whatever its number of frames, and \<^verbatim>\<open>crop_label\<close> applied
  to a volume of shape 8 by 144 by 144 returns that volume: at the canonical size both are
  the identity, and so applying them again changes nothing.
\<close>

theorem crop_noop_at_canonical_size:
  "(shape img = [T, 8, 144, 144] \<longrightarrow> crop_img img = Inr img)
   \<and> (shape lbl = [8, 144, 144] \<longrightarrow> crop_label lbl = Inr lbl)"
proof (intro conjI impI)
  assume sh: "shape img = [T, 8, 144, 144]"
  have w: "slice_bound 144 (int (144 div 2) - 144 div 2) = 0"
    "slice_bound 144 (int (144 div 2) + 144 div 2) = 144"
    by (simp_all add: slice_bound_def)
  have s1: "slice_axis 1 (int (8 div 2) - 8 div 2) (int (8 div 2) + 8 div 2) img = img"
    by (rule slice_axis_whole) (simp_all add: sh slice_bound_def)
  have s2: "slice_axis 2 (int (144 div 2) - 144 div 2) (int (144 div 2) + 144 div 2) img = img"
    by (rule slice_axis_whole) (simp_all add: sh slice_bound_def)
  have s3: "slice_axis 3 (int (144 div 2) - 144 div 2) (int (144 div 2) + 144 div 2) img = img"
    by (rule slice_axis_whole) (simp_all add: sh slice_bound_def)
  show "crop_img img = Inr img"
    unfolding crop_img_def Let_def sh
    using s1 s2 s3 by (simp add: sh)
next
  assume sh: "shape lbl = [8, 144, 144]"
  have w: "slice_bound 144 (int (144 div 2) - 144 div 2) = 0"
    "slice_bound 144 (int (144 div 2) + 144 div 2) = 144"
    by (simp_all add: slice_bound_def)
  have s0: "slice_axis 0 (int (8 div 2) - 8 div 2) (int (8 div 2) + 8 div 2) lbl = lbl"
    by (rule slice_axis_whole) (simp_all add: sh slice_bound_def)
  have s1: "slice_axis 1 (int (144 div 2) - 144 div 2) (int (144 div 2) + 144 div 2) lbl = lbl"
    by (rule slice_axis_whole) (simp_all add: sh slice_bound_def)
  have s2: "slice_axis 2 (int (144 div 2) - 144 div 2) (int (144 div 2) + 144 div 2) lbl = lbl"
    by (rule slice_axis_whole) (simp_all add: sh slice_bound_def)
  show "crop_label lbl = Inr lbl"
    unfolding crop_label_def Let_def sh
    using s0 s1 s2 by (simp add: sh)
qed

theorem crop_noop_at_canonical_size_witness:
  "shape canonical_volume = [30, 8, 144, 144]
   \<and> crop_img canonical_volume = Inr canonical_volume
   \<and> shape canonical_label = [8, 144, 144]
   \<and> crop_label canonical_label = Inr canonical_label"
proof -
  have v: "shape canonical_volume = [30, 8, 144, 144]" by (simp add: canonical_volume_def)
  have l: "shape canonical_label = [8, 144, 144]" by (simp add: canonical_label_def)
  from crop_noop_at_canonical_size [of canonical_volume 30 canonical_label] v l
  show ?thesis by simp
qed

text \<open>
  Claim C10. For a four-dimensional input of fewer than 8 slices and of at least 144 rows
  and columns, \<^verbatim>\<open>crop_img\<close> returns an array of shape (frames, 8, 144, 144): its first
  slices are the slices of the input, in their order and cut to the centred window of 144
  by 144, and the slices after them, up to the eighth, are 0 everywhere. The padding
  follows the content; nothing is put before it or around it. \<^verbatim>\<open>crop_label\<close> does the
  same along the first axis of a label volume and returns an array of shape (8, 144, 144).
\<close>

theorem crop_pads_after_the_slices:
  "(shape img = [T, Z, Y, X] \<and> Z < 8 \<and> 144 \<le> Y \<and> 144 \<le> X \<longrightarrow>
      (\<exists>out. crop_img img = Inr out \<and> shape out = [T, 8, 144, 144]
         \<and> (\<forall>t z y x. item out [t, z, y, x] =
               (if z < Z then item img [t, z, y + (Y div 2 - 72), x + (X div 2 - 72)]
                else 0))))
   \<and> (shape lbl = [Z, Y, X] \<and> Z < 8 \<and> 144 \<le> Y \<and> 144 \<le> X \<longrightarrow>
      (\<exists>out. crop_label lbl = Inr out \<and> shape out = [8, 144, 144]
         \<and> (\<forall>z y x. item out [z, y, x] =
               (if z < Z then item lbl [z, y + (Y div 2 - 72), x + (X div 2 - 72)]
                else 0))))"
proof (intro conjI impI)
  assume a: "shape img = [T, Z, Y, X] \<and> Z < 8 \<and> 144 \<le> Y \<and> 144 \<le> X"
  then have sh: "shape img = [T, Z, Y, X]" and Z: "Z < 8" and Y: "144 \<le> Y" and X: "144 \<le> X"
    by simp_all
  let ?c = "slice_axis 3 (int (X div 2) - 72) (int (X div 2) + 72)
              (slice_axis 2 (int (Y div 2) - 72) (int (Y div 2) + 72) img)"
  have c_shape: "shape ?c = [T, Z, 144, 144]"
    using centre_window72 [OF Y] centre_window72 [OF X] Y X
    by (simp add: shape_slice_axis item_slice_axis sh)
  have c_item: "item ?c [t, z, y, x] = item img [t, z, y + (Y div 2 - 72), x + (X div 2 - 72)]"
    for t z y x
    using centre_window72 [OF Y] centre_window72 [OF X] Y X
    by (simp add: shape_slice_axis item_slice_axis sh)
  have crop: "crop_img img = concatenate ?c (zeros [T, 8 - Z, 144, 144]) 1"
    using Z by (simp add: crop_img_def Let_def sh)
  let ?out = "\<lparr>shape = [T, 8, 144, 144],
               item = (\<lambda>idx. if idx ! 1 < Z then item ?c idx
                               else item (zeros [T, 8 - Z, 144, 144] :: 'a ndarray)
                                      (idx[1 := idx ! 1 - Z]))\<rparr>"
  have "crop_img img = Inr ?out"
    using Z unfolding crop concatenate_def c_shape
    by (simp add: zeros_def cong: if_cong)
  moreover have "item ?out [t, z, y, x] =
      (if z < Z then item img [t, z, y + (Y div 2 - 72), x + (X div 2 - 72)] else 0)" for t z y x
    using c_item [of t z y x] by (simp add: zeros_def)
  ultimately show "\<exists>out. crop_img img = Inr out \<and> shape out = [T, 8, 144, 144]
         \<and> (\<forall>t z y x. item out [t, z, y, x] =
               (if z < Z then item img [t, z, y + (Y div 2 - 72), x + (X div 2 - 72)]
                else 0))"
    by (intro exI [of _ ?out]) simp
next
  assume a: "shape lbl = [Z, Y, X] \<and> Z < 8 \<and> 144 \<le> Y \<and> 144 \<le> X"
  then have sh: "shape lbl = [Z, Y, X]" and Z: "Z < 8" and Y: "144 \<le> Y" and X: "144 \<le> X"
    by simp_all
  let ?c = "slice_axis 2 (int (X div 2) - 72) (int (X div 2) + 72)
              (slice_axis 1 (int (Y div 2) - 72) (int (Y div 2) + 72) lbl)"
  have c_shape: "shape ?c = [Z, 144, 144]"
    using centre_window72 [OF Y] centre_window72 [OF X] Y X
    by (simp add: shape_slice_axis item_slice_axis sh)
  have c_item: "item ?c [z, y, x] = item lbl [z, y + (Y div 2 - 72), x + (X div 2 - 72)]"
    for z y x
    using centre_window72 [OF Y] centre_window72 [OF X] Y X
    by (simp add: shape_slice_axis item_slice_axis sh)
  have crop: "crop_label lbl = concatenate ?c (zeros [8 - Z, 144, 144]) 0"
    using Z by (simp add: crop_label_def Let_def sh)
  let ?out = "\<lparr>shape = [8, 144, 144],
               item = (\<lambda>idx. if idx ! 0 < Z then item ?c idx
                               else item (zeros [8 - Z, 144, 144] :: 'b ndarray)
                                      (idx[0 := idx ! 0 - Z]))\<rparr>"
  have "crop_label lbl = Inr ?out"
    using Z unfolding crop concatenate_def c_shape
    by (simp add: zeros_def cong: if_cong)
  moreover have "item ?out [z, y, x] =
      (if z < Z then item lbl [z, y + (Y div 2 - 72), x + (X div 2 - 72)] else 0)" for z y x
    using c_item [of z y x] by (simp add: zeros_def)
  ultimately show "\<exists>out. crop_label lbl = Inr out \<and> shape out = [8, 144, 144]
         \<and> (\<forall>z y x. item out [z, y, x] =
               (if z < Z then item lbl [z, y + (Y div 2 - 72), x + (X div 2 - 72)]
                else 0))"
    by (intro exI [of _ ?out]) simp
qed

theorem crop_pads_after_the_slices_witness:
  "shape shallow_volume = [30, 6, 256, 216] \<and> (6::nat) < 8 \<and> (144::nat) \<le> 256
   \<and> (144::nat) \<le> 216
   \<and> (\<exists>out. crop_img shallow_volume = Inr out \<and> shape out = [30, 8, 144, 144]
         \<and> item out [0, 5, 0, 0] = 98 \<and> item out [29, 0, 143, 143] = 408
         \<and> item out [0, 6, 0, 0] = 0 \<and> item out [29, 7, 143, 143] = 0)
   \<and> shape shallow_label = [6, 256, 216]
   \<and> (\<exists>out. crop_label shallow_label = Inr out \<and> shape out = [8, 144, 144]
         \<and> item out [5, 0, 0] = 2 \<and> item out [6, 0, 0] = 0 \<and> item out [7, 143, 143] = 0)"
proof -
  have v: "shape shallow_volume = [30, 6, 256, 216]" by (simp add: shallow_volume_def)
  have l: "shape shallow_label = [6, 256, 216]" by (simp add: shallow_label_def)
  from crop_pads_after_the_slices [of shallow_volume 30 6 256 216 shallow_label] v l
  obtain out out' where
    o: "crop_img shallow_volume = Inr out" "shape out = [30, 8, 144, 144]"
       "\<And>t z y x. item out [t, z, y, x] =
          (if z < 6 then item shallow_volume [t, z, y + (256 div 2 - 72), x + (216 div 2 - 72)]
           else 0)"
    and o': "crop_label shallow_label = Inr out'" "shape out' = [8, 144, 144]"
       "\<And>z y x. item out' [z, y, x] =
          (if z < 6 then item shallow_label [z, y + (256 div 2 - 72), x + (216 div 2 - 72)]
           else 0)"
    by auto
  have "item out [0, 5, 0, 0] = 98" "item out [29, 0, 143, 143] = 408"
    "item out [0, 6, 0, 0] = 0" "item out [29, 7, 143, 143] = 0"
    by (simp_all add: o(3) shallow_volume_def)
  moreover have "item out' [5, 0, 0] = 2" "item out' [6, 0, 0] = 0" "item out' [7, 143, 143] = 0"
    by (simp_all add: o'(3) shallow_label_def)
  ultimately show ?thesis using v l o(1,2) o'(1,2) by auto
qed

section \<open>Frame indices and label file names\<close>

text \<open>
  The first number of the folder name is found behind any prefix without digits, and
  \<open>ptnum\<close> is that number filled to three digits.
\<close>

lemma after_Inr [simp]: "after (Inr a) f = f a"
  by (simp add: after_def)

lemma after_Inl [simp]: "after (Inl e) f = Inl e"
  by (simp add: after_def)

lemma findall_digits_first:
  assumes "list_all (\<lambda>c. \<not> is_digit c) pre" "is_digit d"
  shows "findall_digits (pre @ d # post) =
           takeWhile is_digit (d # post) # findall_digits (dropWhile is_digit post)"
  using assms by (induction pre) simp_all

lemma takeWhile_run:
  assumes "list_all is_digit run" "post = [] \<or> \<not> is_digit (hd post)"
  shows "takeWhile is_digit (run @ post) = run"
proof -
  have "takeWhile is_digit post = []"
    using assms(2) by (cases post) auto
  with assms(1) show ?thesis
    by (simp add: takeWhile_append2 list_all_iff)
qed

lemma ptnum_of_first_run:
  assumes "list_all (\<lambda>c. \<not> is_digit c) pre"
    and "run \<noteq> []" and "list_all is_digit run"
    and "post = [] \<or> \<not> is_digit (hd post)"
  shows "ptnum_of (pre @ run @ post) = Inr (zfill run 3)"
proof -
  from assms(2) obtain d ds where run: "run = d # ds"
    by (cases run) auto
  with assms(3) have d: "is_digit d"
    by simp
  have "findall_digits (pre @ d # (ds @ post)) =
          takeWhile is_digit (d # (ds @ post)) # findall_digits (dropWhile is_digit (ds @ post))"
    by (rule findall_digits_first [OF assms(1) d])
  moreover have "takeWhile is_digit (d # (ds @ post)) = run"
    using takeWhile_run [OF assms(3,4)] by (simp add: run)
  ultimately have "py_index (findall_digits (pre @ run @ post)) 0 = Inr run"
    by (simp add: py_index_def run)
  then show ?thesis
    by (simp add: ptnum_of_def)
qed

lemma zfill_005:
  assumes "run \<in> {''5'', ''05'', ''005''}"
  shows "zfill run 3 = ''005''"
  using assms by (auto simp: zfill_def eval_nat_numeral)

lemma zfill_005_only:
  assumes "run \<noteq> []" "list_all is_digit run" "zfill run 3 = ''005''"
  shows "run \<in> {''5'', ''05'', ''005''}"
proof -
  have nosign: "\<not> is_digit CHR ''+''" "\<not> is_digit CHR ''-''"
    by (simp_all add: is_digit_def)
  consider (one) a where "run = [a]" | (two) a b where "run = [a, b]"
    | (more) "3 \<le> length run"
    using assms(1)
    by (cases run rule: list.exhaust; cases "tl run"; cases "tl (tl run)") auto
  then show ?thesis
  proof cases
    case one
    with assms(2,3) nosign show ?thesis
      by (auto simp: zfill_def eval_nat_numeral split: if_splits)
  next
    case two
    with assms(2,3) nosign show ?thesis
      by (auto simp: zfill_def eval_nat_numeral split: if_splits)
  next
    case more
    with assms(3) show ?thesis
      by (simp add: zfill_def)
  qed
qed

text \<open>
  The patient number is \<open>005\<close> exactly when the first run of digits of the folder name is
  \<open>5\<close>, \<open>05\<close> or \<open>005\<close>.
\<close>

lemma ptnum_of_005_only:
  assumes "list_all (\<lambda>c. \<not> is_digit c) pre"
    and "run \<noteq> []" and "list_all is_digit run"
    and "post = [] \<or> \<not> is_digit (hd post)"
  shows "ptnum_of (pre @ run @ post) = Inr ''005'' \<longleftrightarrow> run \<in> {''5'', ''05'', ''005''}"
  unfolding ptnum_of_first_run [OF assms]
  using zfill_005 [of run] zfill_005_only [OF assms(2,3)] by auto

lemma ptnum_of_005:
  assumes "list_all (\<lambda>c. \<not> is_digit c) pre"
    and "run \<in> {''5'', ''05'', ''005''}"
    and "post = [] \<or> \<not> is_digit (hd post)"
  shows "ptnum_of (pre @ run @ post) = Inr ''005''"
proof -
  have d: "is_digit CHR ''0''" "is_digit CHR ''5''"
    by (simp_all add: is_digit_def)
  from assms(2) have "run \<noteq> []" "list_all is_digit run"
    using d by auto
  from ptnum_of_first_run [OF assms(1) this assms(3)] zfill_005 [OF assms(2)]
  show ?thesis
    by simp
qed

lemma frame_of_cfg_1_10: "frame_of cfg_1_10 0 = Inr 1" "frame_of cfg_1_10 1 = Inr 10"
  by code_simp+

lemma gt_dir_005:
  "gt_dir ''005'' 1 = IMG_DIR @ ''/patient005/patient005_frame01_gt.nii.gz''"
  "gt_dir ''005'' 10 = IMG_DIR @ ''/patient005/patient005_frame10_gt.nii.gz''"
  by code_simp+

lemma init_reads_es_label:
  assumes "ptnum_of name = Inr ptnum"
    and "images fs (img_dir ptnum) = Some vol" and "crop_img vol = Inr v"
    and "texts fs (cfg_path ptnum) = Some text" and "frame_of text 1 = Inr es"
    and "images fs (gt_dir ptnum es) = None"
  shows "cardiacdata_init fs name = Inl (ImageReadError (gt_dir ptnum es))"
  using assms by (simp add: cardiacdata_init_def ReadImage_def read_text_def)

lemma init_reads_ed_label:
  assumes "ptnum_of name = Inr ptnum"
    and "images fs (img_dir ptnum) = Some vol" and "crop_img vol = Inr v"
    and "texts fs (cfg_path ptnum) = Some text" and "frame_of text 1 = Inr es"
    and "images fs (gt_dir ptnum es) = Some l" and "crop_label l = Inr l'"
    and "frame_of text 0 = Inr ed"
    and "images fs (gt_dir ptnum ed) = None"
  shows "cardiacdata_init fs name = Inl (ImageReadError (gt_dir ptnum ed))"
  using assms by (simp add: cardiacdata_init_def ReadImage_def read_text_def)

text \<open>
  Claim C8, for the folder names whose number the constructor reads as 5. The constructor
  takes the first run of digits of the folder name, so let the name be a prefix without
  digits, then \<open>5\<close>, \<open>05\<close> or \<open>005\<close>, then a rest that does not begin with a digit. Then
  the patient number is \<open>005\<close>. From the configuration whose two lines are \<open>ED:1\<close> and
  \<open>ES:10\<close> the constructor reads 1 from the first line, for end-diastole, and 10 from the
  second, for end-systole, and the names of the two label files end in
  \<open>patient005_frame01_gt.nii.gz\<close> and \<open>patient005_frame10_gt.nii.gz\<close>. These are the files
  the constructor reads, the end-systolic one first: when the image volume can be read and
  cropped, the constructor run on files without the label file of frame 10 stops at
  reading that file, and run on files with it but without the label file of frame 1 stops
  at reading that one.
\<close>

theorem frames_and_label_names:
  assumes "list_all (\<lambda>c. \<not> is_digit c) pre"
    and "run \<in> {''5'', ''05'', ''005''}"
    and "post = [] \<or> \<not> is_digit (hd post)"
  shows "ptnum_of (pre @ run @ post) = Inr ''005''
    \<and> frame_of cfg_1_10 0 = Inr 1
    \<and> frame_of cfg_1_10 1 = Inr 10
    \<and> gt_dir ''005'' 1 = IMG_DIR @ ''/patient005/patient005_frame01_gt.nii.gz''
    \<and> gt_dir ''005'' 10 = IMG_DIR @ ''/patient005/patient005_frame10_gt.nii.gz''
    \<and> (texts fs (cfg_path ''005'') = Some cfg_1_10
         \<and> images fs (img_dir ''005'') = Some vol \<and> (\<exists>v. crop_img vol = Inr v)
       \<longrightarrow>
         (images fs (gt_dir ''005'' 10) = None \<longrightarrow>
            cardiacdata_init fs (pre @ run @ post) =
              Inl (ImageReadError (IMG_DIR @ ''/patient005/patient005_frame10_gt.nii.gz'')))
       \<and> (images fs (gt_dir ''005'' 10) = Some l \<and> (\<exists>v. crop_label l = Inr v)
            \<and> images fs (gt_dir ''005'' 1) = None \<longrightarrow>
            cardiacdata_init fs (pre @ run @ post) =
              Inl (ImageReadError (IMG_DIR @ ''/patient005/patient005_frame01_gt.nii.gz''))))"
proof -
  note pt = ptnum_of_005 [OF assms]
  have es: "cardiacdata_init fs (pre @ run @ post) =
              Inl (ImageReadError (IMG_DIR @ ''/patient005/patient005_frame10_gt.nii.gz''))"
    if "texts fs (cfg_path ''005'') = Some cfg_1_10" "images fs (img_dir ''005'') = Some vol"
      "crop_img vol = Inr v" "images fs (gt_dir ''005'' 10) = None" for v
    using init_reads_es_label [OF pt that(2) that(3) that(1) frame_of_cfg_1_10(2) that(4)]
    by (simp only: gt_dir_005)
  have ed: "cardiacdata_init fs (pre @ run @ post) =
              Inl (ImageReadError (IMG_DIR @ ''/patient005/patient005_frame01_gt.nii.gz''))"
    if "texts fs (cfg_path ''005'') = Some cfg_1_10" "images fs (img_dir ''005'') = Some vol"
      "crop_img vol = Inr v" "images fs (gt_dir ''005'' 10) = Some l" "crop_label l = Inr l'"
      "images fs (gt_dir ''005'' 1) = None" for v l'
    using init_reads_ed_label [OF pt that(2) that(3) that(1) frame_of_cfg_1_10(2) that(4) that(5)
        frame_of_cfg_1_10(1) that(6)]
    by (simp only: gt_dir_005)
  show ?thesis
    using pt frame_of_cfg_1_10 gt_dir_005 es ed by blast
qed

lemma case5_paths:
  "img_dir ''005'' = IMG_DIR @ ''/patient005/patient005_4d.nii.gz''"
  "cfg_path ''005'' = IMG_DIR @ ''/patient005/Info.cfg''"
  by (simp_all add: img_dir_def cfg_path_def)

lemma crop_img_cine_volume: "\<exists>v. crop_img cine_volume = Inr v"
  by (simp add: crop_img_def cine_volume_def Let_def)

lemma crop_label_systole_label_volume: "\<exists>v. crop_label systole_label_volume = Inr v"
  by (simp add: crop_label_def systole_label_volume_def Let_def)

text \<open>
  The theorem at the folder names \<open>patient005\<close>, \<open>patient05\<close> and \<open>patient5\<close> and the
  files of case 5.
\<close>

theorem frames_and_label_names_witness:
  "ptnum_of ''patient005'' = Inr ''005''
    \<and> ptnum_of ''patient05'' = Inr ''005''
    \<and> ptnum_of ''patient5'' = Inr ''005''
    \<and> frame_of cfg_1_10 0 = Inr 1
    \<and> frame_of cfg_1_10 1 = Inr 10
    \<and> cardiacdata_init
         (without_image case5_files (IMG_DIR @ ''/patient005/patient005_frame10_gt.nii.gz''))
         ''patient005'' =
       Inl (ImageReadError (IMG_DIR @ ''/patient005/patient005_frame10_gt.nii.gz''))
    \<and> cardiacdata_init
         (without_image case5_files (IMG_DIR @ ''/patient005/patient005_frame01_gt.nii.gz''))
         ''patient005'' =
       Inl (ImageReadError (IMG_DIR @ ''/patient005/patient005_frame01_gt.nii.gz''))"
proof -
  let ?gt10 = "IMG_DIR @ ''/patient005/patient005_frame10_gt.nii.gz''"
  let ?gt01 = "IMG_DIR @ ''/patient005/patient005_frame01_gt.nii.gz''"
  have pre: "list_all (\<lambda>c. \<not> is_digit c) ''patient''"
    by (simp add: is_digit_def)
  have post: "([]::string) = [] \<or> \<not> is_digit (hd [])"
    by simp
  have run: "''005'' \<in> {''5'', ''05'', ''005''}" "''05'' \<in> {''5'', ''05'', ''005''}"
    "''5'' \<in> {''5'', ''05'', ''005''}"
    by simp_all
  have texts: "texts (without_image case5_files p) (cfg_path ''005'') = Some cfg_1_10" for p
    by (simp add: without_image_def case5_files_def case5_paths)
  have img10: "images (without_image case5_files ?gt10) (img_dir ''005'') = Some cine_volume"
    by (simp add: without_image_def case5_files_def case5_paths)
  have img01: "images (without_image case5_files ?gt01) (img_dir ''005'') = Some cine_volume"
    by (simp add: without_image_def case5_files_def case5_paths)
  have no10: "images (without_image case5_files ?gt10) (gt_dir ''005'' 10) = None"
    by (simp add: without_image_def gt_dir_005)
  have has10: "images (without_image case5_files ?gt01) (gt_dir ''005'' 10) =
      Some systole_label_volume"
    by (simp add: without_image_def case5_files_def gt_dir_005)
  have no01: "images (without_image case5_files ?gt01) (gt_dir ''005'' 1) = None"
    by (simp add: without_image_def gt_dir_005)
  from frames_and_label_names [OF pre run(1) post,
      of "without_image case5_files ?gt10" cine_volume]
    frames_and_label_names [OF pre run(1) post,
      of "without_image case5_files ?gt01" cine_volume systole_label_volume]
    frames_and_label_names [OF pre run(2) post]
    frames_and_label_names [OF pre run(3) post]
    texts img10 img01 no10 has10 no01 crop_img_cine_volume crop_label_systole_label_volume
  show ?thesis
    by simp
qed

text \<open>
  Two folder names that contain the number 5 and for which the constructor does not look
  for the files of patient \<open>005\<close>. In \<open>run2_patient5\<close> the first number is 2: the patient
  number is \<open>002\<close>, and the constructor, given the volume and the configuration of that
  patient, goes on to read \<open>patient002_frame10_gt.nii.gz\<close>. In \<open>patient0005\<close> the number
  has four digits already: the patient number is \<open>0005\<close>, and the label file read is
  \<open>patient0005_frame10_gt.nii.gz\<close>.
\<close>

theorem folder_number_counterexample:
  "ptnum_of ''run2_patient5'' = Inr ''002''
    \<and> cardiacdata_init (unlabelled_files ''002'') ''run2_patient5'' =
       Inl (ImageReadError (IMG_DIR @ ''/patient002/patient002_frame10_gt.nii.gz''))
    \<and> ptnum_of ''patient0005'' = Inr ''0005''
    \<and> cardiacdata_init (unlabelled_files ''0005'') ''patient0005'' =
       Inl (ImageReadError (IMG_DIR @ ''/patient0005/patient0005_frame10_gt.nii.gz''))"
proof -
  have p2: "ptnum_of ''run2_patient5'' = Inr ''002''"
    by code_simp
  have p4: "ptnum_of ''patient0005'' = Inr ''0005''"
    by code_simp
  have g2: "gt_dir ''002'' 10 = IMG_DIR @ ''/patient002/patient002_frame10_gt.nii.gz''"
    by code_simp
  have g4: "gt_dir ''0005'' 10 = IMG_DIR @ ''/patient0005/patient0005_frame10_gt.nii.gz''"
    by code_simp
  obtain v where v: "crop_img cine_volume = Inr v"
    using crop_img_cine_volume by blast
  have files: "images (unlabelled_files p) (img_dir p) = Some cine_volume"
    "texts (unlabelled_files p) (cfg_path p) = Some cfg_1_10" for p
    by (simp_all add: unlabelled_files_def)
  have n2: "images (unlabelled_files ''002'') (gt_dir ''002'' 10) = None"
    by (simp add: unlabelled_files_def g2 img_dir_def)
  have n4: "images (unlabelled_files ''0005'') (gt_dir ''0005'' 10) = None"
    by (simp add: unlabelled_files_def g4 img_dir_def)
  from init_reads_es_label [OF p2 files(1) v files(2) frame_of_cfg_1_10(2) n2]
    init_reads_es_label [OF p4 files(1) v files(2) frame_of_cfg_1_10(2) n4]
    p2 p4
  show ?thesis
    by (simp only: g2 g4)
qed

section \<open>What indexed access returns\<close>








lemma shape_long: "shape (long a) = shape a"
  by (simp add: long_def)





lemma item_long: "item (long a) idx = trunc (item a idx)"
  by (simp add: long_def)

lemma index0_first:
  assumes "shape a = Suc n # sh"
  shows "index0 a 0 = Inr \<lparr>shape = sh, item = (\<lambda>idx. item a (0 # idx))\<rparr>"
  using assms by (simp add: index0_def)






text \<open>
  Whatever the files are, when the constructor returns and indexed access returns, the
  image tensor has four axes and the label tensor three.
\<close>

lemma after_eq_Inr: "after r f = Inr y \<longleftrightarrow> (\<exists>a. r = Inr a \<and> f a = Inr y)"
  by (cases r) (simp_all add: after_def)

lemma merge_frames_rank:
  assumes "merge_frames a = Inr c"
  shows "length (shape c) = 3"
  using assms by (auto simp: merge_frames_def reshape_def Let_def split: if_splits)

lemma cardiacdata_init_ranks:
  assumes "cardiacdata_init fs folder_name = Inr ds"
  shows "length (shape (self_img ds)) = 4 \<and> length (shape (self_gt ds)) = 4"
proof -
  from assms obtain a b a' b' where
    "merge_frames a = Inr a'" "merge_frames b = Inr b'"
    "ds = \<lparr>self_img = expand_dims0 a', self_gt = expand_dims0 b',
            self_len = shape (expand_dims0 a') ! 0\<rparr>"
    unfolding cardiacdata_init_def Let_def after_eq_Inr by blast
  then show ?thesis
    by (simp add: expand_dims0_def merge_frames_rank)
qed

lemma getitem_ranks:
  assumes "cardiacdata_init fs folder_name = Inr ds" "getitem ds i = Inr (img, gt)"
  shows "length (shape img) = 4 \<and> length (shape gt) = 3"
proof -
  note r = cardiacdata_init_ranks [OF assms(1)]
  from assms(2) obtain a b where ab: "index0 (self_img ds) i = Inr a"
    "index0 (self_gt ds) i = Inr b" "img = expand_dims0 a" "gt = long b"
    unfolding getitem_def Let_def after_eq_Inr by auto
  have "length (shape a) = 3"
    using ab(1) r by (cases "shape (self_img ds)") (auto simp: index0_def split: if_splits)
  moreover have "length (shape b) = 3"
    using ab(2) r by (cases "shape (self_gt ds)") (auto simp: index0_def split: if_splits)
  ultimately show ?thesis
    by (simp add: ab(3,4) expand_dims0_def long_def)
qed











section \<open>The first decoder stage of a constructed network\<close>

text \<open>
  No layer call records a resampling, so a resampling in the trace of a pass comes from
  the forward pass of the network or of a residual decoder block.
\<close>

lemma no_resampling: "\<forall>ev \<in> set tr. resampled ev = [] \<Longrightarrow> resamplings tr = []"
  by (induction tr) simp_all

lemma call_layer_no_resampling:
  "\<forall>ev \<in> set (trace (call_layer p l x)). resampled ev = []"
  "\<forall>ev \<in> set (trace (call_children p i ls x)). resampled ev = []"
proof (induction p l x and p i ls x rule: call_layer_call_children.induct)
  case (1 p ls x)
  show ?case
    unfolding call_layer.simps
    by (rule events_and_then) (use 1 in simp_all)
next
  case (3 p i x)
  show ?case by simp
next
  case (4 p i l ls x)
  show ?case
    unfolding call_children.simps
    by (rule events_and_then) (use 4 in simp_all)
qed (simp_all add: call_layer_leaf_trace)

lemma DsBlock_call_no_resampling:
  "\<forall>ev \<in> set (trace (DsBlock_call p (DsBlock_init ci co pl) x)). resampled ev = []"
  unfolding DsBlock_call_def DsBlock_forward_def Let_def
  by (intro events_and_then) (simp_all add: DsBlock_init_def call_layer_no_resampling)

lemma DsBlock_call_channels:
  assumes "outcome (DsBlock_call p (DsBlock_init ci co pl) x) = Inr (y, bp)"
  shows "\<exists>n d h w. tshape y = [n, co, d, h, w]"
  using assms
  by (auto simp: DsBlock_call_def DsBlock_forward_def DsBlock_init_def conv3x3_def Let_def
        outcome_and_then call_layer_leaf_outcome
      split: sum.splits list.splits if_splits)


lemma encoder_loop_no_resampling:
  assumes "\<forall>b \<in> set bs. \<exists>ci co pl. b = DsBlock_init ci co pl"
  shows "\<forall>ev \<in> set (trace (encoder_loop n i bs st)). resampled ev = []"
  using assms
proof (induction bs arbitrary: i st)
  case Nil
  show ?case by simp
next
  case (Cons b bs)
  obtain x eo sk where st: "st = (x, eo, sk)"
    by (cases st) auto
  from Cons.prems obtain ci co pl where b: "b = DsBlock_init ci co pl"
    by auto
  from Cons.prems have rest: "\<forall>b \<in> set bs. \<exists>ci co pl. b = DsBlock_init ci co pl"
    by simp
  show ?case
    unfolding st encoder_loop.simps
  proof (rule events_and_then)
    show "\<forall>ev\<in>set (trace (DsBlock_call [Attr ''down_convs'', Idx i] b x)). resampled ev = []"
      unfolding b by (rule DsBlock_call_no_resampling)
  next
    fix a
    show "\<forall>ev\<in>set (trace (case a of (x, before_pool) \<Rightarrow>
              encoder_loop n (Suc i) bs
                (x, eo @ [before_pool], if int i < int n - 1 then sk @ [x] else sk))).
            resampled ev = []"
      using Cons.IH [OF rest] by (cases a) simp
  qed
qed

lemma encoder_loop_channels:
  assumes "bs \<noteq> []"
    and "\<forall>b \<in> set bs. \<exists>ci co pl. b = DsBlock_init ci co pl"
    and "outcome (encoder_loop n i bs st) = Inr (x, eo, sk)"
  shows "\<exists>k d h w. tshape x = [k, out_width (ds_conv (last bs)), d, h, w]"
  using assms
proof (induction bs arbitrary: i st)
  case Nil
  then show ?case by simp
next
  case (Cons b bs)
  obtain x0 eo0 sk0 where st: "st = (x0, eo0, sk0)"
    by (cases st) auto
  from Cons.prems(2) obtain ci co pl where b: "b = DsBlock_init ci co pl"
    by auto
  from Cons.prems(2) have rest: "\<forall>b \<in> set bs. \<exists>ci co pl. b = DsBlock_init ci co pl"
    by simp
  from Cons.prems(3) obtain y bp where
    y: "outcome (DsBlock_call [Attr ''down_convs'', Idx i] b x0) = Inr (y, bp)"
    and r: "outcome (encoder_loop n (Suc i) bs
              (y, eo0 @ [bp], if int i < int n - 1 then sk0 @ [y] else sk0)) = Inr (x, eo, sk)"
    unfolding st encoder_loop.simps outcome_and_then
    by (auto split: sum.splits)
  show ?case
  proof (cases "bs = []")
    case True
    with r have "x = y" by simp
    moreover have "\<exists>k d h w. tshape y = [k, co, d, h, w]"
      using y unfolding b by (rule DsBlock_call_channels)
    ultimately show ?thesis
      using True by (simp add: b DsBlock_init_def conv3x3_def)
  next
    case False
    from Cons.IH [OF False rest r] show ?thesis
      using False by simp
  qed
qed

lemma UsBlock_call_raises:
  assumes "0 < cin"
  shows "\<exists>e. outcome (up_call p (UsBlock (UsBlock_init cin cout mode)) skip x) = Inl e"
proof (cases "outcome (call_layer (p @ [Attr ''upconv'']) (upconv2x2 cin cout mode) x)")
  case (Inl e)
  then show ?thesis
    by (simp add: up_call_def UsBlock_forward_def UsBlock_init_def outcome_and_then)
next
  case (Inr y)
  from upconv2x2_outcome [OF Inr] obtain n d h w where
    "tshape y = [n, cout, 2 * d, 2 * h, 2 * w]"
    by blast
  with assms have "outcome (call_layer (p @ [Attr ''conv''])
      (conv3x3 (cin + cout) cout) y) = Inl (ChannelMismatch (cin + cout) cout)"
    by (simp add: conv3x3_def call_layer_leaf_outcome)
  with Inr show ?thesis
    by (simp add: up_call_def UsBlock_forward_def UsBlock_init_def outcome_and_then)
qed

lemma UsBlock_call_no_resampling:
  "\<forall>ev \<in> set (trace (up_call p (UsBlock blk) skip x)). resampled ev = []"
proof -
  have "\<forall>ev \<in> set (trace (UsBlock_forward p blk skip x)). resampled ev = []"
    unfolding UsBlock_forward_def
    by (intro events_and_then) (simp_all add: call_layer_no_resampling)
  then show ?thesis
    unfolding up_call_def by (intro events_and_then) simp_all
qed

lemma UsBlockRes_upconv_raises:
  assumes "\<And>k d h w. tshape x \<noteq> [k, cin, d, h, w]"
  shows "\<exists>e. outcome (call_layer q (upconv2x2 cin cout mode) x) = Inl e"
proof (cases "outcome (call_layer q (upconv2x2 cin cout mode) x)")
  case (Inl e)
  then show ?thesis by simp
next
  case (Inr y)
  from upconv2x2_outcome [OF Inr] assms show ?thesis
    by blast
qed

lemma UsBlockRes_call_raises:
  assumes "\<And>k d h w. tshape x \<noteq> [k, cin, d, h, w]"
  shows "(\<exists>e. outcome (up_call p (UsBlockRes (UsBlockRes_init cin cout mode)) skip x) = Inl e)
    \<and> (\<forall>ev \<in> set (trace (up_call p (UsBlockRes (UsBlockRes_init cin cout mode)) skip x)).
          resampled ev = [])"
proof -
  obtain e where e: "outcome (call_layer (p @ [Attr ''upconv'']) (upconv2x2 cin cout mode) x)
      = Inl e"
    using UsBlockRes_upconv_raises [OF assms] by blast
  have "outcome (up_call p (UsBlockRes (UsBlockRes_init cin cout mode)) skip x) = Inl e"
    by (simp add: up_call_def UsBlockRes_forward_def UsBlockRes_init_def outcome_and_then e)
  moreover have "trace (up_call p (UsBlockRes (UsBlockRes_init cin cout mode)) skip x) =
      Call p [skip, x] # trace (call_layer (p @ [Attr ''upconv'']) (upconv2x2 cin cout mode) x)"
    by (simp add: up_call_def UsBlockRes_forward_def UsBlockRes_init_def trace_and_then e)
  ultimately show ?thesis
    using call_layer_no_resampling(1) by simp
qed

lemma decoder_loop_first_raises:
  assumes "\<And>skip. \<exists>e. outcome (up_call [Attr ''up_convs'', Idx i] m skip x) = Inl e"
    and "\<And>skip. \<forall>ev \<in> set (trace (up_call [Attr ''up_convs'', Idx i] m skip x)).
           resampled ev = []"
  shows "(\<exists>e. outcome (decoder_loop cv sk eo i (m # ms) x) = Inl e)
    \<and> (\<forall>ev \<in> set (trace (decoder_loop cv sk eo i (m # ms) x)). resampled ev = [])"
proof (cases "py_index sk (- int i - 1)")
  case (Inl e)
  then show ?thesis
    by (simp add: outcome_and_then trace_and_then)
next
  case (Inr skip)
  from assms(1) obtain e where
    e: "outcome (up_call [Attr ''up_convs'', Idx i] m skip x) = Inl e"
    by blast
  show ?thesis
    using assms(2) [of skip] by (simp add: outcome_and_then trace_and_then Inr e)
qed


lemma ELUNet_init_explicit:
  assumes "2 \<le> depth" "ELUNet_init nc ic depth F0 mode res = Inr net"
  shows "\<exists>n rest. nat depth = Suc (Suc n)
    \<and> down_convs net =
        map (\<lambda>i. DsBlock_init (F0 * 2 ^ i) (F0 * 2 ^ i * 2) (int i < depth - 1))
          [0 ..< Suc (Suc n)]
    \<and> up_convs net =
        (if res then UsBlockRes (UsBlockRes_init (F0 * 2 ^ Suc (Suc n) + F0 * 2 ^ Suc n)
                      (F0 * 2 ^ Suc n) mode)
         else UsBlock (UsBlock_init (F0 * 2 ^ Suc (Suc n)) (F0 * 2 ^ Suc n) mode)) # rest"
proof -
  define n where "n = nat depth - 2"
  have n: "nat depth = Suc (Suc n)" "nat (depth - 1) = Suc n"
    using assms(1) by (simp_all add: n_def)
  define o0 where "o0 = F0 * 2 ^ Suc (Suc n)"
  have half: "o0 div 2 = F0 * 2 ^ Suc n"
    by (simp add: o0_def)
  define f where "f = (\<lambda>i. if res
      then UsBlockRes (UsBlockRes_init (o0 div 2 ^ i + o0 div 2 ^ Suc i) (o0 div 2 ^ Suc i) mode)
      else UsBlock (UsBlock_init (o0 div 2 ^ i) (o0 div 2 ^ Suc i) mode))"
  have enc: "encoder_pathway depth F0 =
      (map (\<lambda>i. DsBlock_init (F0 * 2 ^ i) (F0 * 2 ^ i * 2) (int i < depth - 1))
         [0 ..< Suc (Suc n)], Some o0)"
    unfolding encoder_pathway_def n encoder_pathway_fold o0_def by simp
  have dec: "decoder_pathway depth o0 mode res = (map f [0 ..< Suc n], o0 div 2 ^ Suc n)"
    unfolding decoder_pathway_def n decoder_pathway_fold f_def by simp
  have "[0 ..< Suc n] = 0 # [1 ..< Suc n]"
    by (simp add: upt_rec)
  then have ucs: "map f [0 ..< Suc n] = f 0 # map f [1 ..< Suc n]"
    by simp
  have f0: "f 0 = (if res then UsBlockRes (UsBlockRes_init (F0 * 2 ^ Suc (Suc n) + F0 * 2 ^ Suc n)
                      (F0 * 2 ^ Suc n) mode)
         else UsBlock (UsBlock_init (F0 * 2 ^ Suc (Suc n)) (F0 * 2 ^ Suc n) mode))"
  proof -
    have "f 0 = (if res then UsBlockRes (UsBlockRes_init (o0 + o0 div 2) (o0 div 2) mode)
                 else UsBlock (UsBlock_init o0 (o0 div 2) mode))"
      by (simp add: f_def)
    then show ?thesis
      unfolding half unfolding o0_def .
  qed
  define r where "r =
      \<lparr>conv_start = conv3x3 ic F0,
       down_convs = map (\<lambda>i. DsBlock_init (F0 * 2 ^ i) (F0 * 2 ^ i * 2) (int i < depth - 1))
                      [0 ..< Suc (Suc n)],
       up_convs = f 0 # map f [1 ..< Suc n],
       conv_final = conv1x1 (o0 div 2 ^ Suc n) nc,
       conv = conv3x3 (o0 div 2 ^ Suc n * 2) (o0 div 2 ^ Suc n)\<rparr>"
  have "ELUNet_init nc ic depth F0 mode res = Inr r"
    by (simp add: ELUNet_init_def enc dec ucs r_def del: upt_Suc)
  with assms(2) have "net = r"
    by simp
  then have "down_convs net =
        map (\<lambda>i. DsBlock_init (F0 * 2 ^ i) (F0 * 2 ^ i * 2) (int i < depth - 1))
          [0 ..< Suc (Suc n)]"
    and "up_convs net = f 0 # map f [1 ..< Suc n]"
    by (simp_all add: r_def del: upt_Suc)
  with n(1) f0 show ?thesis
    by (simp only:) blast
qed

text \<open>
  Every network the constructor builds with a depth of at least 2 and at least one start
  filter raises on every input, at its first decoder stage at the latest, and no
  resampling is recorded before it does.
\<close>

lemma ELUNet_forward_raises:
  assumes "2 \<le> depth" "0 < F0" "ELUNet_init nc ic depth F0 mode res = Inr net"
  shows "(\<exists>e. outcome (ELUNet_forward net x) = Inl e)
    \<and> resamplings (trace (ELUNet_forward net x)) = []"
proof -
  from ELUNet_init_explicit [OF assms(1,3)] obtain n rest where
    n: "nat depth = Suc (Suc n)"
    and dcs: "down_convs net =
        map (\<lambda>i. DsBlock_init (F0 * 2 ^ i) (F0 * 2 ^ i * 2) (int i < depth - 1))
          [0 ..< Suc (Suc n)]"
    and ucs: "up_convs net =
        (if res then UsBlockRes (UsBlockRes_init (F0 * 2 ^ Suc (Suc n) + F0 * 2 ^ Suc n)
                      (F0 * 2 ^ Suc n) mode)
         else UsBlock (UsBlock_init (F0 * 2 ^ Suc (Suc n)) (F0 * 2 ^ Suc n) mode)) # rest"
    by blast
  define o0 where "o0 = F0 * 2 ^ Suc (Suc n)"
  define first where "first =
        (if res then UsBlockRes (UsBlockRes_init (o0 + F0 * 2 ^ Suc n) (F0 * 2 ^ Suc n) mode)
         else UsBlock (UsBlock_init o0 (F0 * 2 ^ Suc n) mode))"
  have ucs': "up_convs net = first # rest"
    by (simp only: ucs first_def o0_def)
  have pos: "0 < o0" "0 < F0 * 2 ^ Suc n"
    using assms(2) by (simp_all add: o0_def)
  have blocks: "\<forall>b \<in> set (down_convs net). \<exists>ci co pl. b = DsBlock_init ci co pl"
    unfolding dcs by auto
  have nonempty: "down_convs net \<noteq> []"
    unfolding dcs by simp
  have "last (down_convs net) =
      DsBlock_init (F0 * 2 ^ Suc n) (F0 * 2 ^ Suc n * 2) (int (Suc n) < depth - 1)"
    unfolding dcs by (simp add: last_map del: upt_Suc)
  then have lastw: "out_width (ds_conv (last (down_convs net))) = o0"
    by (simp add: DsBlock_init_def conv3x3_def o0_def)
  have up: "(\<exists>e. outcome (up_call [Attr ''up_convs'', Idx 0] first skip y) = Inl e)
      \<and> (\<forall>ev \<in> set (trace (up_call [Attr ''up_convs'', Idx 0] first skip y)).
            resampled ev = [])"
    if "tshape y = [k, o0, d, h, w]" for y skip k d h w
  proof (cases res)
    case True
    have ne: "tshape y \<noteq> [k', o0 + F0 * 2 ^ Suc n, d', h', w']" for k' d' h' w'
      using that pos(2) by simp
    show ?thesis
      unfolding first_def if_P [OF True]
      by (rule UsBlockRes_call_raises) (rule ne)
  next
    case False
    then show ?thesis
      unfolding first_def
      using UsBlock_call_raises [OF pos(1)] UsBlock_call_no_resampling
      by (simp only: if_False) blast
  qed
  let ?start = "call_layer [Attr ''conv_start''] (conv_start net) x"
  have tr0: "\<forall>ev \<in> set (trace ?start). resampled ev = []"
    by (rule call_layer_no_resampling)
  show ?thesis
  proof (cases "outcome ?start")
    case (Inl e)
    then show ?thesis
      using tr0 by (simp add: ELUNet_forward_def outcome_and_then trace_and_then no_resampling)
  next
    case (Inr x1)
    let ?enc = "encoder_loop (length (down_convs net)) 0 (down_convs net) (x1, [], [])"
    have tr1: "\<forall>ev \<in> set (trace ?enc). resampled ev = []"
      by (rule encoder_loop_no_resampling [OF blocks])
    show ?thesis
    proof (cases "outcome ?enc")
      case (Inl e)
      then show ?thesis
        using tr0 tr1 Inr
        by (simp add: ELUNet_forward_def outcome_and_then trace_and_then no_resampling)
    next
      case enc: (Inr st)
      obtain x2 eo sk where st: "st = (x2, eo, sk)"
        by (cases st) auto
      from encoder_loop_channels [OF nonempty blocks enc [unfolded st]] lastw
      obtain k d h w where x2: "tshape x2 = [k, o0, d, h, w]"
        by auto
      let ?dec = "decoder_loop (conv net) sk eo 0 (first # rest) x2"
      have dec: "(\<exists>e. outcome ?dec = Inl e) \<and> (\<forall>ev \<in> set (trace ?dec). resampled ev = [])"
        by (rule decoder_loop_first_raises) (use up [OF x2] in blast)+
      then obtain e where e: "outcome ?dec = Inl e"
        by blast
      have out: "outcome (ELUNet_forward net x) = Inl e"
        by (simp add: ELUNet_forward_def outcome_and_then Inr enc st ucs' e
            del: decoder_loop.simps)
      have "trace (ELUNet_forward net x) = trace ?start @ trace ?enc @ trace ?dec"
        by (simp add: ELUNet_forward_def outcome_and_then trace_and_then Inr enc st ucs' e
            del: decoder_loop.simps)
      then have "resamplings (trace (ELUNet_forward net x)) = []"
        using tr0 tr1 dec by (simp add: no_resampling)
      with out show ?thesis
        by simp
    qed
  qed
qed

end
